theory Spec2Isabelle
  imports Main "HOL-Library.Word" "HOL-Library.Sublist" "HOL-Library.AList"
begin

section \<open>JavaScript strings and Node buffers\<close>

text \<open>
  A Node \<open>Buffer\<close> is a sequence of bytes. A JavaScript string is modelled as the list
  of its code points; \<open>jslength\<close> gives the \<open>.length\<close> of the string (UTF-16 code
  units). HTTP header values reach the program as strings whose characters are the
  header's bytes, so their code points lie below 256.
\<close>

type_synonym byte = "8 word"
type_synonym buffer = "byte list"
type_synonym jsstring = "nat list"

definition js :: "string \<Rightarrow> jsstring" where
  "js s = map of_char s"

definition jslength :: "jsstring \<Rightarrow> nat" where
  "jslength s = sum_list (map (\<lambda>c. if c < 0x10000 then 1 else 2) s)"

text \<open>\<open>Buffer.from(string)\<close> and \<open>fs.writeFileSync(path, string)\<close> encode as UTF-8.\<close>

definition utf8_encode_cp :: "nat \<Rightarrow> buffer" where
  "utf8_encode_cp c =
     (if c < 0x80 then [of_nat c]
      else if c < 0x800 then [of_nat (0xC0 + c div 64), of_nat (0x80 + c mod 64)]
      else if 0xD800 \<le> c \<and> c \<le> 0xDFFF then [0xEF, 0xBF, 0xBD]
      else if c < 0x10000 then
        [of_nat (0xE0 + c div 4096), of_nat (0x80 + (c div 64) mod 64), of_nat (0x80 + c mod 64)]
      else
        [of_nat (0xF0 + c div 262144), of_nat (0x80 + (c div 4096) mod 64),
         of_nat (0x80 + (c div 64) mod 64), of_nat (0x80 + c mod 64)])"

definition Buffer_from :: "jsstring \<Rightarrow> buffer" where
  "Buffer_from s = concat (map utf8_encode_cp s)"

text \<open>
  \<open>buf.toString()\<close> decodes UTF-8; every maximal ill-formed subsequence becomes one
  U+FFFD. The decoder state is (continuation bytes still needed, code point so far,
  lower and upper bound of the next byte).
\<close>

type_synonym utf8_state = "nat \<times> nat \<times> nat \<times> nat"

definition utf8_idle :: utf8_state where
  "utf8_idle = (0, 0, 0x80, 0xBF)"

definition utf8_first :: "nat \<Rightarrow> jsstring \<times> utf8_state" where
  "utf8_first b =
     (if b \<le> 0x7F then ([b], utf8_idle)
      else if 0xC2 \<le> b \<and> b \<le> 0xDF then ([], (1, b mod 32, 0x80, 0xBF))
      else if 0xE0 \<le> b \<and> b \<le> 0xEF then
        ([], (2, b mod 16, if b = 0xE0 then 0xA0 else 0x80, if b = 0xED then 0x9F else 0xBF))
      else if 0xF0 \<le> b \<and> b \<le> 0xF4 then
        ([], (3, b mod 8, if b = 0xF0 then 0x90 else 0x80, if b = 0xF4 then 0x8F else 0xBF))
      else ([0xFFFD], utf8_idle))"

fun utf8_run :: "utf8_state \<Rightarrow> nat list \<Rightarrow> jsstring" where
  "utf8_run (n, cp, lo, hi) [] = (if n = 0 then [] else [0xFFFD])"
| "utf8_run (n, cp, lo, hi) (b # bs) =
     (if n = 0 then fst (utf8_first b) @ utf8_run (snd (utf8_first b)) bs
      else if b < lo \<or> hi < b then
        0xFFFD # fst (utf8_first b) @ utf8_run (snd (utf8_first b)) bs
      else if n = 1 then (cp * 64 + b mod 64) # utf8_run utf8_idle bs
      else utf8_run (n - 1, cp * 64 + b mod 64, 0x80, 0xBF) bs)"

definition toString :: "buffer \<Rightarrow> jsstring" where
  "toString buf = utf8_run utf8_idle (map unat buf)"

text \<open>
  \<open>indexOf(value, byteOffset)\<close> on buffers and strings: the least index at or after
  the offset where the value begins; \<open>None\<close> is the source's \<open>-1\<close>.
\<close>

fun index_of :: "'a list \<Rightarrow> 'a list \<Rightarrow> nat option" where
  "index_of needle [] = (if needle = [] then Some 0 else None)"
| "index_of needle (x # xs) =
     (if prefix needle (x # xs) then Some 0 else map_option Suc (index_of needle xs))"

definition indexOf :: "'a list \<Rightarrow> 'a list \<Rightarrow> nat \<Rightarrow> nat option" where
  "indexOf buf needle pos = map_option (\<lambda>i. i + pos) (index_of needle (drop pos buf))"

definition includes_buf :: "'a list \<Rightarrow> 'a list \<Rightarrow> bool" where
  "includes_buf buf needle = (indexOf buf needle 0 \<noteq> None)"

text \<open>\<open>slice(start, end)\<close> and \<open>substring(start, end)\<close> with \<open>0 \<le> start\<close> and \<open>0 \<le> end\<close>.\<close>

definition slice :: "'a list \<Rightarrow> nat \<Rightarrow> nat \<Rightarrow> 'a list" where
  "slice buf start stop = drop start (take stop buf)"

section \<open>The multipart extractor (\<open>parseMultipartFormData\<close>)\<close>

text \<open>The byte strings the extractor compares against.\<close>

definition dashes :: jsstring where
  "dashes = js ''--''"

definition crlf :: jsstring where
  "crlf = [13, 10]"

definition headerEnd :: jsstring where
  "headerEnd = [13, 10, 13, 10]"

definition boundaryBuffer :: "jsstring \<Rightarrow> buffer" where
  "boundaryBuffer boundary = Buffer_from (dashes @ boundary)"

definition headerEndBuffer :: buffer where
  "headerEndBuffer = Buffer_from headerEnd"

definition filenameMarker :: buffer where
  "filenameMarker = Buffer_from (js ''filename='')"

text \<open>
  The regular expression \<open>/filename="([^"]+)"/\<close> applied with \<open>match\<close>: the leftmost
  position where \<open>filename="\<close> is followed by a non-empty run of characters other than
  the quote and then a quote; the result is the captured run.
\<close>

definition quote :: nat where
  "quote = 34"

fun filenameMatch :: "jsstring \<Rightarrow> jsstring option" where
  "filenameMatch [] = None"
| "filenameMatch (c # cs) =
     (if prefix (js ''filename='' @ [quote]) (c # cs) then
        (let rest = drop 10 (c # cs);
             name = takeWhile (\<lambda>x. x \<noteq> quote) rest;
             after = dropWhile (\<lambda>x. x \<noteq> quote) rest
         in if name \<noteq> [] \<and> after \<noteq> [] then Some name else filenameMatch cs)
      else filenameMatch cs)"

text \<open>
  The \<open>while (true)\<close> loop that records every boundary position. The needle is
  \<open>'--' + boundary\<close>, so each round moves \<open>pos\<close> forward by at least two bytes.
\<close>

function boundaryPositions :: "buffer \<Rightarrow> jsstring \<Rightarrow> nat \<Rightarrow> nat list" where
  "boundaryPositions buffer boundary pos =
     (case indexOf buffer (boundaryBuffer boundary) pos of
        None \<Rightarrow> []
      | Some index \<Rightarrow>
          index # boundaryPositions buffer boundary (index + length (boundaryBuffer boundary)))"
  by pat_completeness auto

lemma index_of_bounds:
  "index_of needle xs = Some i \<Longrightarrow> i + length needle \<le> length xs"
proof (induction xs arbitrary: i)
  case Nil
  then show ?case by (simp split: if_splits)
next
  case (Cons x xs)
  show ?case
  proof (cases "prefix needle (x # xs)")
    case True
    with Cons.prems prefix_length_le [OF True] show ?thesis by simp
  next
    case False
    with Cons.prems obtain j where "index_of needle xs = Some j" "i = Suc j" by auto
    with Cons.IH show ?thesis by simp
  qed
qed

lemma indexOf_bounds:
  assumes "indexOf buf needle pos = Some i"
  shows "pos \<le> i" and "i + length needle \<le> max pos (length buf)"
proof -
  from assms obtain j where j: "index_of needle (drop pos buf) = Some j" and i: "i = j + pos"
    by (auto simp: indexOf_def)
  show "pos \<le> i" using i by simp
  from index_of_bounds [OF j] show "i + length needle \<le> max pos (length buf)"
    using i by simp
qed

lemma length_boundaryBuffer: "2 \<le> length (boundaryBuffer boundary)"
  by (simp add: boundaryBuffer_def Buffer_from_def dashes_def js_def utf8_encode_cp_def)

termination boundaryPositions
proof (relation "measure (\<lambda>(buffer, boundary, pos). length buffer - pos)")
  show "wf (measure (\<lambda>(buffer, boundary, pos). length buffer - pos))" by simp
next
  fix buffer :: buffer and boundary pos index
  assume a: "indexOf buffer (boundaryBuffer boundary) pos = Some index"
  from indexOf_bounds [OF a] length_boundaryBuffer [of boundary]
  have "pos \<le> index" "index + length (boundaryBuffer boundary) \<le> max pos (length buffer)"
    "2 \<le> length (boundaryBuffer boundary)" by auto
  then show "((buffer, boundary, index + length (boundaryBuffer boundary)), (buffer, boundary, pos))
      \<in> measure (\<lambda>(buffer, boundary, pos). length buffer - pos)"
    by auto
qed

declare boundaryPositions.simps [simp del]

record parsed =
  fileName :: "jsstring option"
  fileContent :: "buffer option"

text \<open>
  The \<open>for\<close> loop over consecutive boundary positions. \<open>continue\<close> is the recursive
  call on the remaining positions, \<open>break\<close> returns.
\<close>

fun processParts :: "buffer \<Rightarrow> nat \<Rightarrow> nat list \<Rightarrow> parsed" where
  "processParts buffer blen (p # q # rest) =
     (let partStart = p + blen;
          partEnd = q;
          part = slice buffer partStart partEnd
      in if includes_buf part filenameMarker then
           (case indexOf part headerEndBuffer 0 of
              None \<Rightarrow> processParts buffer blen (q # rest)
            | Some headerEndPos \<Rightarrow>
                (let header = toString (slice part 0 headerEndPos)
                 in case filenameMatch header of
                      None \<Rightarrow> processParts buffer blen (q # rest)
                    | Some name \<Rightarrow>
                        (let contentStart = headerEndPos + length headerEndBuffer;
                             contentEnd = length part - 2
                         in \<lparr>fileName = Some name,
                             fileContent = Some (slice part contentStart contentEnd)\<rparr>)))
         else processParts buffer blen (q # rest))"
| "processParts buffer blen ps = \<lparr>fileName = None, fileContent = None\<rparr>"

definition parseMultipartFormData :: "buffer \<Rightarrow> jsstring \<Rightarrow> parsed" where
  "parseMultipartFormData buffer boundary =
     processParts buffer (length (boundaryBuffer boundary)) (boundaryPositions buffer boundary 0)"


section \<open>Paths (\<open>path.extname\<close>, \<open>path.basename\<close>)\<close>

text \<open>
  Node's POSIX \<open>path.extname\<close> looks at the last segment of the path, trailing slashes
  dropped: the extension runs from the last dot to the end, and is empty when there is
  no dot, when the dot is the first character of the segment, or when the segment is
  \<open>..\<close>. \<open>path.basename(p, ext)\<close> is the last segment without the suffix \<open>ext\<close>,
  or the whole segment when it does not end in \<open>ext\<close> or is \<open>ext\<close> itself. The
  handlers call it with \<open>ext = path.extname(p)\<close> only.
\<close>

definition dot :: nat where
  "dot = 46"

definition slash :: nat where
  "slash = 47"

definition last_segment :: "jsstring \<Rightarrow> jsstring" where
  "last_segment p = rev (takeWhile (\<lambda>c. c \<noteq> slash) (dropWhile (\<lambda>c. c = slash) (rev p)))"

definition extname :: "jsstring \<Rightarrow> jsstring" where
  "extname p =
     (let seg = last_segment p;
          ext = rev (takeWhile (\<lambda>c. c \<noteq> dot) (rev seg));
          stem = take (length seg - length ext - 1) seg
      in if dot \<notin> set seg \<or> stem = [] \<or> seg = [dot, dot] then [] else dot # ext)"

definition basename :: "jsstring \<Rightarrow> jsstring \<Rightarrow> jsstring" where
  "basename p ext =
     (if ext \<noteq> [] \<and> length ext \<le> length p then
        (if ext = p then []
         else let seg = last_segment p
              in if suffix ext seg \<and> ext \<noteq> seg then take (length seg - length ext) seg
                 else seg)
      else last_segment p)"

text \<open>
  \<open>path.join(dir, name)\<close> for an absolute \<open>dir\<close>: the two are put together with a slash
  (an empty \<open>name\<close> is left out) and the result is normalized. Normalizing an absolute
  path drops the empty segments and the segments \<open>.\<close>, lets a segment \<open>..\<close> take back the
  segment before it (at the root it is dropped), and keeps one trailing slash when the
  path ended in one and segments remain.
\<close>

fun splitSlash :: "jsstring \<Rightarrow> jsstring list" where
  "splitSlash [] = [[]]"
| "splitSlash (c # cs) =
     (if c = slash then [] # splitSlash cs
      else (case splitSlash cs of
              seg # segs \<Rightarrow> (c # seg) # segs
            | [] \<Rightarrow> [[c]]))"

definition normalizeString :: "jsstring \<Rightarrow> jsstring list" where
  "normalizeString path =
     rev (fold (\<lambda>seg res. if seg = [] \<or> seg = [dot] then res
                         else if seg = [dot, dot] then tl res
                         else seg # res)
            (splitSlash path) [])"

definition normalize_path :: "jsstring \<Rightarrow> jsstring" where
  "normalize_path path =
     (let res = normalizeString path
      in if res = [] then [slash]
         else concat (map (\<lambda>seg. slash # seg) res) @ (if last path = slash then [slash] else []))"

definition path_join :: "jsstring \<Rightarrow> jsstring \<Rightarrow> jsstring" where
  "path_join dir name = normalize_path (if name = [] then dir else dir @ slash # name)"

text \<open>
  \<open>__dirname\<close> is the directory of the script; in the image that the Dockerfile builds
  (\<open>WORKDIR /usr/src/app\<close>, \<open>COPY server.js ./\<close>) it is \<open>/usr/src/app\<close>.
\<close>

definition dirname :: jsstring where
  "dirname = js ''/usr/src/app''"

definition UPLOAD_DIR :: jsstring where
  "UPLOAD_DIR = path_join dirname (js ''uploads'')"

section \<open>The stores\<close>

text \<open>
  \<open>fileDatabase\<close> and \<open>userSessions\<close> are JavaScript objects used as dictionaries.
  They are association lists in insertion order, which is the order in which
  \<open>Object.entries\<close> enumerates them: assigning to a new key appends, assigning to an
  existing key replaces in place, \<open>delete\<close> removes. The keys that are assigned are
  the ids that \<open>generateUniqueId\<close> and \<open>generateSessionId\<close> return, 32 and 64
  hexadecimal digits: none of them is an array index, so no key is moved to the front,
  and none is the name of a property that objects inherit.

  The file system is a map from the normalized absolute path of a regular file to its
  content. Directories are not in it.

  The records of \<open>server.js\<close> are \<open>simpleMeta\<close>; those of the server with sessions
  have the field \<open>sessionId\<close> in addition.
\<close>

record simpleMeta =
  originalName :: jsstring
  filename :: jsstring
  size_f :: nat
  uploadTime :: int
  expiryTime :: int
  downloaded :: bool

record fileMeta = simpleMeta +
  sessionId :: jsstring

record session =
  created :: int
  files :: "jsstring list"

text \<open>
  Both dictionaries are plain objects, so a read \<open>obj[key]\<close> with a key that was never
  assigned still finds the properties every object inherits from \<open>Object.prototype\<close>:
  twelve names in Node, each bound to a function or, for \<open>__proto__\<close>, to the prototype
  itself. Such a value is truthy, and its \<open>files\<close>, \<open>sessionId\<close>, \<open>filename\<close> and
  \<open>originalName\<close> are \<open>undefined\<close>. A client chooses the key when it is the value of the
  session cookie or the name at the end of a download path. The statement
  \<open>fileDatabase[fileId].downloaded = true\<close> with \<open>fileId = '__proto__'\<close> assigns to the
  prototype; from then on \<open>downloaded\<close> is an inherited name as well (bound to \<open>true\<close>),
  which the store records in \<open>prototypeDownloaded\<close>.
\<close>

definition objectPrototype :: "jsstring list" where
  "objectPrototype =
     [js ''constructor'', js ''__proto__'', js ''hasOwnProperty'', js ''isPrototypeOf'',
      js ''propertyIsEnumerable'', js ''toLocaleString'', js ''toString'', js ''valueOf'',
      js ''__defineGetter__'', js ''__defineSetter__'', js ''__lookupGetter__'',
      js ''__lookupSetter__'']"

datatype 'a property = Own 'a | Inherited | Missing

definition getProperty :: "bool \<Rightarrow> (jsstring \<times> 'a) list \<Rightarrow> jsstring \<Rightarrow> 'a property" where
  "getProperty marked obj key =
     (case map_of obj key of
        Some v \<Rightarrow> Own v
      | None \<Rightarrow>
          if key \<in> set objectPrototype \<or> (marked \<and> key = js ''downloaded'') then Inherited
          else Missing)"

record server =
  fileDatabase :: "(jsstring \<times> fileMeta) list"
  userSessions :: "(jsstring \<times> session) list"
  disk :: "jsstring \<rightharpoonup> buffer"
  prototypeDownloaded :: bool

definition FILE_EXPIRY :: int where
  "FILE_EXPIRY = 4 * 60 * 60 * 1000"

definition SESSION_MAX_AGE :: int where
  "SESSION_MAX_AGE = 24 * 60 * 60 * 1000"

text \<open>
  \<open>fs.unlinkSync\<close> throws when the file is absent and when the operating system
  refuses the deletion; \<open>fails\<close> says for which paths it refuses.
\<close>

datatype fs_error = ENOENT | EACCES

definition unlinkSync :: "(jsstring \<Rightarrow> bool) \<Rightarrow> jsstring \<Rightarrow> (jsstring \<rightharpoonup> buffer)
    \<Rightarrow> fs_error + (jsstring \<rightharpoonup> buffer)" where
  "unlinkSync fails filePath d =
     (if d filePath = None then Inl ENOENT
      else if fails filePath then Inl EACCES
      else Inr (d(filePath := None)))"

definition existsSync :: "(jsstring \<rightharpoonup> buffer) \<Rightarrow> jsstring \<Rightarrow> bool" where
  "existsSync d filePath = (d filePath \<noteq> None)"

datatype log = Deleted jsstring | DeleteError jsstring | SessionDeleted jsstring

section \<open>Sessions\<close>

definition createSession :: "server \<Rightarrow> jsstring \<Rightarrow> int \<Rightarrow> server" where
  "createSession st newSessionId now =
     st\<lparr>userSessions := AList.update newSessionId \<lparr>created = now, files = []\<rparr> (userSessions st)\<rparr>"

text \<open>
  The head of the request handler: the value of the cookie if it is not empty and
  \<open>userSessions[sessionId]\<close> is truthy, a new session otherwise. A cookie that names an
  inherited property passes the test, and its value is the session id of the request
  although no such session was created. \<open>cookie\<close> is the result of \<open>getSessionId\<close>;
  \<open>newSessionId\<close> is what \<open>generateSessionId\<close> would return.
\<close>

definition getOrCreateSession :: "server \<Rightarrow> jsstring option \<Rightarrow> jsstring \<Rightarrow> int
    \<Rightarrow> jsstring \<times> server" where
  "getOrCreateSession st cookie newSessionId now =
     (case cookie of
        None \<Rightarrow> (newSessionId, createSession st newSessionId now)
      | Some sid \<Rightarrow>
          if sid = [] \<or> getProperty (prototypeDownloaded st) (userSessions st) sid = Missing
          then (newSessionId, createSession st newSessionId now)
          else (sid, st))"


section \<open>Request handlers\<close>

text \<open>
  Each handler below is one branch of the request listener, taken by method and path.
  The branch that serves static files comes before them and answers a \<open>GET\<close> only when
  the path names a file under \<open>public\<close>; the image puts \<open>index.html\<close>,
  \<open>manifest.json\<close>, \<open>service-worker.js\<close> and two icons there, none of them under
  \<open>/api\<close> or \<open>/download\<close>.
\<close>

datatype file_entry =
  FileEntry (entry_id: jsstring) (entry_originalName: jsstring) (entry_size: nat)
    (entry_uploadTime: int) (entry_expiryTime: int) (entry_downloadLink: jsstring)

text \<open>
  A response is its status code and its body. \<open>Uploaded\<close> carries the file id, the
  storage key that ends the download link, and the expiry time; \<open>Attachment\<close> carries
  the name of the \<open>Content-Disposition\<close> header and the streamed bytes.
\<close>

datatype body =
  Error string
  | Uploaded jsstring jsstring int
  | Files "file_entry list"
  | Message string
  | Attachment jsstring buffer

type_synonym response = "nat \<times> body"

subsection \<open>\<open>GET /api/files\<close>\<close>

text \<open>
  The handler reads \<open>userSessions[sessionId].files\<close> outside any \<open>try\<close>. When the session
  is missing, or the id names an inherited property (whose \<open>files\<close> is \<open>undefined\<close>), that
  is an uncaught \<open>TypeError\<close>, which ends the process: \<open>None\<close>. The ids in the list are
  generated ids, looked up among the assigned keys.
\<close>

definition listFiles :: "server \<Rightarrow> jsstring \<Rightarrow> response option" where
  "listFiles st sid =
     (case getProperty (prototypeDownloaded st) (userSessions st) sid of
        Own sess \<Rightarrow>
          Some (200, Files
            (map (\<lambda>fileId. let metadata = the (map_of (fileDatabase st) fileId)
                    in FileEntry fileId (originalName metadata) (size_f metadata)
                         (uploadTime metadata) (expiryTime metadata) (filename metadata))
               (filter (\<lambda>fileId. map_of (fileDatabase st) fileId \<noteq> None) (files sess))))
      | _ \<Rightarrow> None)"

subsection \<open>\<open>POST /api/upload\<close>\<close>

text \<open>
  The regular expression \<open>/boundary=(?:"([^"]+)"|([^;]+))/i\<close>: the leftmost position
  where \<open>boundary=\<close>, in any letter case, is followed either by a quoted non-empty run
  without quotes (group 1) or by a non-empty run without semicolons (group 2). The
  result is \<open>boundaryMatch[1] || boundaryMatch[2]\<close>.
\<close>

definition toLowerAscii :: "nat \<Rightarrow> nat" where
  "toLowerAscii c = (if 65 \<le> c \<and> c \<le> 90 then c + 32 else c)"

definition semicolon :: nat where
  "semicolon = 59"

definition quotedGroup :: "jsstring \<Rightarrow> jsstring option" where
  "quotedGroup rest =
     (case rest of
        [] \<Rightarrow> None
      | q # r \<Rightarrow>
          if q = quote \<and> takeWhile (\<lambda>x. x \<noteq> quote) r \<noteq> [] \<and> dropWhile (\<lambda>x. x \<noteq> quote) r \<noteq> []
          then Some (takeWhile (\<lambda>x. x \<noteq> quote) r) else None)"

fun boundaryMatch :: "jsstring \<Rightarrow> jsstring option" where
  "boundaryMatch [] = None"
| "boundaryMatch (c # cs) =
     (if map toLowerAscii (take 9 (c # cs)) = js ''boundary='' then
        (let rest = drop 9 (c # cs)
         in case quotedGroup rest of
              Some g1 \<Rightarrow> Some g1
            | None \<Rightarrow>
                if takeWhile (\<lambda>x. x \<noteq> semicolon) rest \<noteq> []
                then Some (takeWhile (\<lambda>x. x \<noteq> semicolon) rest)
                else boundaryMatch cs)
      else boundaryMatch cs)"

text \<open>
  What the \<open>end\<close> handler of an upload takes from outside: the generated file id, the
  two readings of the clock, and whether \<open>fs.writeFileSync\<close> throws (a full disk, a
  missing permission, a NUL character in the extension).
\<close>

record upload_env =
  newFileId :: jsstring
  clockUpload :: int
  clockExpiry :: int
  writeFails :: bool

text \<open>
  The \<open>end\<close> handler. \<open>sid\<close> is the session found or created when the request
  arrived; \<open>contentType\<close> is the \<open>content-type\<close> header if there is one; \<open>buffer\<close> is
  \<open>Buffer.concat(chunks)\<close>. A \<open>Buffer\<close> is an object and so never falsy: the check
  \<open>!fileName || !fileContent\<close> rejects a missing or empty name and a missing content.
  An exception inside the \<open>try\<close> block gives the 500 response and keeps the writes
  made before it: so does the push onto the list of a session that has been deleted
  since the request arrived, or whose id names an inherited property. The \<open>data\<close>
  handler, which answers 413 beyond \<open>MAX_FILE_SIZE\<close>, runs before this one and is not
  part of it.
\<close>

definition upload :: "server \<Rightarrow> jsstring \<Rightarrow> jsstring option \<Rightarrow> buffer \<Rightarrow> upload_env
    \<Rightarrow> response \<times> server" where
  "upload st sid contentTypeHeader buffer env =
     (let contentType = (case contentTypeHeader of None \<Rightarrow> [] | Some c \<Rightarrow> c)
      in case boundaryMatch contentType of
           None \<Rightarrow> ((400, Error ''Invalid content type or missing boundary''), st)
         | Some boundary \<Rightarrow>
             (let result = parseMultipartFormData buffer boundary
              in case (fileName result, fileContent result) of
                   (Some name, Some content) \<Rightarrow>
                     if name = [] then
                       ((400, Error ''No file uploaded or invalid file data''), st)
                     else
                       (let fileId = newFileId env;
                            fileExtension = extname name;
                            uniqueFilename = fileId @ fileExtension;
                            filePath = path_join UPLOAD_DIR uniqueFilename
                        in if writeFails env then ((500, Error ''File upload failed''), st)
                           else
                             (let st1 = st\<lparr>disk := (disk st)(filePath \<mapsto> content)\<rparr>;
                                  st2 = st1\<lparr>fileDatabase := AList.update fileId
                                          \<lparr>originalName = name,
                                           filename = uniqueFilename,
                                           size_f = length content,
                                           uploadTime = clockUpload env,
                                           expiryTime = clockExpiry env + FILE_EXPIRY,
                                           downloaded = False,
                                           sessionId = sid\<rparr> (fileDatabase st1)\<rparr>
                              in case getProperty (prototypeDownloaded st2) (userSessions st2) sid of
                                   Own sess \<Rightarrow>
                                     ((200, Uploaded fileId uniqueFilename
                                              (clockExpiry env + FILE_EXPIRY)),
                                      st2\<lparr>userSessions := AList.update sid
                                            (sess\<lparr>files := files sess @ [fileId]\<rparr>)
                                            (userSessions st2)\<rparr>)
                                 | _ \<Rightarrow> ((500, Error ''File upload failed''), st2)))
                 | _ \<Rightarrow> ((400, Error ''No file uploaded or invalid file data''), st)))"


subsection \<open>\<open>POST /api/reset-session\<close>\<close>

text \<open>
  One round of the \<open>forEach\<close> over the session's file ids, which are generated ids. The
  \<open>try\<close> block unlinks the stored bytes if they exist and then deletes the record; when
  \<open>unlinkSync\<close> throws, the \<open>catch\<close> logs and the record stays.
\<close>

definition resetFile :: "(jsstring \<Rightarrow> bool) \<Rightarrow> jsstring \<Rightarrow> log list \<times> server \<Rightarrow> log list \<times> server" where
  "resetFile fails fileId acc =
     (let st = snd acc
      in case map_of (fileDatabase st) fileId of
           None \<Rightarrow> acc
         | Some metadata \<Rightarrow>
             (let filePath = path_join UPLOAD_DIR (filename metadata)
              in if existsSync (disk st) filePath then
                   (case unlinkSync fails filePath (disk st) of
                      Inl err \<Rightarrow> (fst acc @ [DeleteError fileId], st)
                    | Inr d \<Rightarrow>
                        (fst acc, st\<lparr>disk := d, fileDatabase := AList.delete fileId (fileDatabase st)\<rparr>))
                 else (fst acc, st\<lparr>fileDatabase := AList.delete fileId (fileDatabase st)\<rparr>)))"

text \<open>
  The handler: when \<open>userSessions[sessionId]\<close> is truthy, the rounds over its files and
  the deletion of the session, then the new session, whose id goes into the cookie of
  the 200 response. Nothing here is inside a \<open>try\<close> but the rounds: for a session id
  that names an inherited property, \<open>files\<close> is \<open>undefined\<close> and the \<open>forEach\<close> is an
  uncaught \<open>TypeError\<close>, \<open>None\<close>.
\<close>

definition resetSession :: "server \<Rightarrow> jsstring \<Rightarrow> (jsstring \<Rightarrow> bool) \<Rightarrow> jsstring \<Rightarrow> int
    \<Rightarrow> ((response \<times> jsstring) \<times> log list \<times> server) option" where
  "resetSession st sid fails newSessionId now =
     (case getProperty (prototypeDownloaded st) (userSessions st) sid of
        Inherited \<Rightarrow> None
      | Missing \<Rightarrow>
          Some (((200, Message ''Session reset successfully''), newSessionId),
                [], createSession st newSessionId now)
      | Own sess \<Rightarrow>
          (let r = fold (resetFile fails) (files sess) ([], st);
               st1 = (snd r)\<lparr>userSessions := AList.delete sid (userSessions (snd r))\<rparr>
           in Some (((200, Message ''Session reset successfully''), newSessionId),
                    fst r, createSession st1 newSessionId now)))"

subsection \<open>\<open>GET /download/<name>\<close>\<close>

definition fileIdOf :: "jsstring \<Rightarrow> jsstring" where
  "fileIdOf name = basename name (extname name)"

text \<open>
  \<open>res.setHeader\<close> throws a \<open>TypeError\<close> when the value has a character other than the
  tab and the code points \<open>0x20\<close> to \<open>0x7e\<close> and \<open>0x80\<close> to \<open>0xff\<close>.
\<close>

definition validHeaderChar :: "nat \<Rightarrow> bool" where
  "validHeaderChar c \<longleftrightarrow> c = 9 \<or> (0x20 \<le> c \<and> c \<le> 0x7e) \<or> (0x80 \<le> c \<and> c \<le> 0xff)"

definition contentDisposition :: "jsstring \<Rightarrow> jsstring" where
  "contentDisposition originalName' = js ''attachment; filename='' @ [quote] @ originalName' @ [quote]"

text \<open>
  The synchronous part of the handler: the 404 check, the headers, the start of the
  stream and the \<open>downloaded\<close> mark. \<open>name\<close> is \<open>url.pathname\<close> after
  \<open>/download/\<close>, any text here. The
  streamed bytes are those on disk at that moment; of the headers, the name of
  \<open>Content-Disposition\<close> is kept. The handler has no \<open>try\<close>: when \<open>setHeader\<close> throws
  on the original name, the exception is uncaught and ends the process before the store
  is touched, \<open>None\<close>. When \<open>fileDatabase[fileId]\<close> is an inherited property, the name is
  the text \<open>undefined\<close> and the mark goes to that property's value.
\<close>

definition downloadStart :: "server \<Rightarrow> jsstring \<Rightarrow> (response \<times> server) option" where
  "downloadStart st name =
     (let fileId = fileIdOf name;
          filePath = path_join UPLOAD_DIR name
      in case (disk st filePath, getProperty (prototypeDownloaded st) (fileDatabase st) fileId) of
           (None, found) \<Rightarrow> Some ((404, Error ''File not found or expired''), st)
         | (Some bytes, Missing) \<Rightarrow> Some ((404, Error ''File not found or expired''), st)
         | (Some bytes, Own metadata) \<Rightarrow>
             if list_all validHeaderChar (contentDisposition (originalName metadata)) then
               Some ((200, Attachment (originalName metadata) bytes),
                     st\<lparr>fileDatabase := AList.update fileId (metadata\<lparr>downloaded := True\<rparr>)
                           (fileDatabase st)\<rparr>)
             else None
         | (Some bytes, Inherited) \<Rightarrow>
             Some ((200, Attachment (js ''undefined'') bytes),
                   if fileId = js ''__proto__'' then st\<lparr>prototypeDownloaded := True\<rparr> else st))"

text \<open>
  The \<open>finish\<close> callback of the response. Inside its \<open>try\<close> block: \<open>unlinkSync\<close>
  (which throws on an absent file, there is no \<open>existsSync\<close> guard here), then the
  read of \<open>fileDatabase[fileId].sessionId\<close> (a \<open>TypeError\<close> when the record is gone,
  \<open>undefined\<close> on an inherited property), the removal from the session's list (a
  \<open>TypeError\<close> when the session id names an inherited property, whose \<open>files\<close> is
  \<open>undefined\<close>), and the deletion of the record. Any exception is logged and ends the
  callback, with what was done before it kept.
\<close>

definition downloadFinish :: "server \<Rightarrow> jsstring \<Rightarrow> (jsstring \<Rightarrow> bool) \<Rightarrow> log list \<times> server" where
  "downloadFinish st name fails =
     (let fileId = fileIdOf name;
          filePath = path_join UPLOAD_DIR name
      in case unlinkSync fails filePath (disk st) of
           Inl err \<Rightarrow> ([DeleteError name], st)
         | Inr d \<Rightarrow>
             (let st1 = st\<lparr>disk := d\<rparr>
              in case getProperty (prototypeDownloaded st1) (fileDatabase st1) fileId of
                   Missing \<Rightarrow> ([DeleteError name], st1)
                 | Inherited \<Rightarrow> ([Deleted name], st1)
                 | Own metadata \<Rightarrow>
                     (let fileSessionId = sessionId metadata
                      in if fileSessionId = [] then
                           ([Deleted name],
                            st1\<lparr>fileDatabase := AList.delete fileId (fileDatabase st1)\<rparr>)
                         else
                           (case getProperty (prototypeDownloaded st1) (userSessions st1)
                                   fileSessionId of
                              Inherited \<Rightarrow> ([DeleteError name], st1)
                            | Missing \<Rightarrow>
                                ([Deleted name],
                                 st1\<lparr>fileDatabase := AList.delete fileId (fileDatabase st1)\<rparr>)
                            | Own sess \<Rightarrow>
                                ([Deleted name],
                                 st1\<lparr>userSessions := AList.update fileSessionId
                                        (sess\<lparr>files := filter (\<lambda>i. i \<noteq> fileId) (files sess)\<rparr>)
                                        (userSessions st1),
                                     fileDatabase := AList.delete fileId (fileDatabase st1)\<rparr>)))))"

section \<open>The sweep (\<open>setInterval\<close> callback)\<close>

text \<open>
  One round of the \<open>forEach\<close> over the snapshot \<open>Object.entries(fileDatabase)\<close>. The
  \<open>try\<close> block unlinks the bytes if they exist, deletes the record and detaches the id
  from the owning session; when \<open>unlinkSync\<close> throws, the \<open>catch\<close> logs and nothing
  else of the block runs. When the record's session id names an inherited property the
  detaching is a \<open>TypeError\<close>, logged by the same \<open>catch\<close> after the record is deleted.
\<close>

definition sweepFile :: "int \<Rightarrow> (jsstring \<Rightarrow> bool) \<Rightarrow> jsstring \<times> fileMeta
    \<Rightarrow> log list \<times> server \<Rightarrow> log list \<times> server" where
  "sweepFile now fails entry acc =
     (let fileId = fst entry; metadata = snd entry; st = snd acc
      in if now > expiryTime metadata then
           (let filePath = path_join UPLOAD_DIR (filename metadata);
                unlinked = (if existsSync (disk st) filePath
                            then unlinkSync fails filePath (disk st) else Inr (disk st))
            in case unlinked of
                 Inl err \<Rightarrow> (fst acc @ [DeleteError (filename metadata)], st)
               | Inr d \<Rightarrow>
                   (let st1 = st\<lparr>disk := d, fileDatabase := AList.delete fileId (fileDatabase st)\<rparr>;
                        lg = fst acc @ [Deleted (filename metadata)]
                    in if sessionId metadata = [] then (lg, st1)
                       else
                         (case getProperty (prototypeDownloaded st1) (userSessions st1)
                                 (sessionId metadata) of
                            Own sess \<Rightarrow>
                              (lg, st1\<lparr>userSessions := AList.update (sessionId metadata)
                                          (sess\<lparr>files := filter (\<lambda>i. i \<noteq> fileId) (files sess)\<rparr>)
                                          (userSessions st1)\<rparr>)
                          | Inherited \<Rightarrow> (lg @ [DeleteError (filename metadata)], st1)
                          | Missing \<Rightarrow> (lg, st1))))
         else acc)"

definition sweepFiles :: "int \<Rightarrow> (jsstring \<Rightarrow> bool) \<Rightarrow> server \<Rightarrow> log list \<times> server" where
  "sweepFiles now fails st = fold (sweepFile now fails) (fileDatabase st) ([], st)"

text \<open>One round of the \<open>forEach\<close> over the snapshot \<open>Object.entries(userSessions)\<close>.\<close>

definition sweepSession :: "int \<Rightarrow> jsstring \<times> session \<Rightarrow> log list \<times> server \<Rightarrow> log list \<times> server" where
  "sweepSession now entry acc =
     (let sid = fst entry; sess = snd entry; st = snd acc
      in if now - created sess > SESSION_MAX_AGE \<and> length (files sess) = 0 then
           (fst acc @ [SessionDeleted sid],
            st\<lparr>userSessions := AList.delete sid (userSessions st)\<rparr>)
         else acc)"

definition sweepSessions :: "int \<Rightarrow> server \<Rightarrow> log list \<times> server" where
  "sweepSessions now st = fold (sweepSession now) (userSessions st) ([], st)"

definition sweep :: "int \<Rightarrow> (jsstring \<Rightarrow> bool) \<Rightarrow> server \<Rightarrow> log list \<times> server" where
  "sweep now fails st =
     (let r1 = sweepFiles now fails st;
          r2 = sweepSessions now (snd r1)
      in (fst r1 @ fst r2, snd r2))"


section \<open>Multipart bodies and their parts\<close>

text \<open>
  The parts of a body, as the extractor sees them: the bytes between one recorded
  boundary position (after its delimiter) and the next.
\<close>

fun segments :: "buffer \<Rightarrow> nat \<Rightarrow> nat list \<Rightarrow> buffer list" where
  "segments buffer blen (p # q # rest) = slice buffer (p + blen) q # segments buffer blen (q # rest)"
| "segments buffer blen ps = []"

definition partsOf :: "buffer \<Rightarrow> jsstring \<Rightarrow> buffer list" where
  "partsOf buffer boundary =
     segments buffer (length (boundaryBuffer boundary)) (boundaryPositions buffer boundary 0)"

text \<open>
  A well-formed body: a preamble, then each part behind a delimiter, a closing
  delimiter and an epilogue. \<open>delimiter_free d x\<close> says that no delimiter begins inside
  \<open>x\<close>, not even one that would run over into the delimiter that follows \<open>x\<close>.
\<close>

fun multipart :: "jsstring \<Rightarrow> buffer \<Rightarrow> buffer list \<Rightarrow> buffer \<Rightarrow> buffer" where
  "multipart b pre [] epi = pre @ boundaryBuffer b @ epi"
| "multipart b pre (p # ps) epi = pre @ boundaryBuffer b @ multipart b p ps epi"

definition delimiter_free :: "'a list \<Rightarrow> 'a list \<Rightarrow> bool" where
  "delimiter_free d x \<longleftrightarrow> index_of d (x @ d) = Some (length x)"

definition well_formed :: "jsstring \<Rightarrow> buffer \<Rightarrow> buffer list \<Rightarrow> buffer \<Rightarrow> bool" where
  "well_formed b pre ps epi \<longleftrightarrow>
     delimiter_free (boundaryBuffer b) pre \<and>
     list_all (delimiter_free (boundaryBuffer b)) ps \<and>
     index_of (boundaryBuffer b) epi = None"

text \<open>
  What the extractor does with one part. A part qualifies when it contains the
  \<open>filename=\<close> marker, has a header terminator, and the header block before the first
  terminator matches \<open>filename="..."\<close> with a non-empty name. \<open>honored\<close> is the name and
  payload taken from a qualifying part.
\<close>

definition qualifies :: "buffer \<Rightarrow> bool" where
  "qualifies part \<longleftrightarrow>
     includes_buf part filenameMarker \<and>
     (case indexOf part headerEndBuffer 0 of
        None \<Rightarrow> False
      | Some h \<Rightarrow> filenameMatch (toString (slice part 0 h)) \<noteq> None)"

definition honored :: "buffer \<Rightarrow> parsed" where
  "honored part =
     (case indexOf part headerEndBuffer 0 of
        None \<Rightarrow> \<lparr>fileName = None, fileContent = None\<rparr>
      | Some h \<Rightarrow>
          \<lparr>fileName = filenameMatch (toString (slice part 0 h)),
           fileContent = Some (slice part (h + 4) (length part - 2))\<rparr>)"

definition firstQualifying :: "buffer list \<Rightarrow> parsed" where
  "firstQualifying ps =
     (case find qualifies ps of
        None \<Rightarrow> \<lparr>fileName = None, fileContent = None\<rparr>
      | Some p \<Rightarrow> honored p)"

text \<open>
  The reading of a qualifying part that takes the marker and the terminator alone:
  the part contains \<open>filename=\<close> and a double CRLF.
\<close>

definition marked_and_terminated :: "buffer \<Rightarrow> bool" where
  "marked_and_terminated part \<longleftrightarrow>
     includes_buf part filenameMarker \<and> indexOf part headerEndBuffer 0 \<noteq> None"

text \<open>
  A file part as a client writes it: CRLF, the header lines, the blank line, the
  payload, and the CRLF before the next delimiter.
\<close>

definition crlfBuffer :: buffer where
  "crlfBuffer = Buffer_from crlf"

definition filePart :: "buffer \<Rightarrow> buffer \<Rightarrow> buffer" where
  "filePart headers content = crlfBuffer @ headers @ headerEndBuffer @ content @ crlfBuffer"

definition file_headers :: "buffer \<Rightarrow> jsstring \<Rightarrow> bool" where
  "file_headers headers name \<longleftrightarrow>
     delimiter_free headerEndBuffer (crlfBuffer @ headers) \<and>
     includes_buf (crlfBuffer @ headers) filenameMarker \<and>
     filenameMatch (toString (crlfBuffer @ headers)) = Some name"

text \<open>
  A body as a browser sends it for a form with two file inputs, the first left empty:
  the first part declares \<open>filename=""\<close>, the second carries \<open>b.txt\<close> with the
  payload \<open>hi\<close>.
\<close>

definition ex_boundary :: jsstring where
  "ex_boundary = js ''X''"

definition ex_part_noname :: buffer where
  "ex_part_noname = Buffer_from (crlf @ js ''Content-Disposition: form-data; name=''
     @ [quote] @ js ''f1'' @ [quote] @ js ''; filename='' @ [quote, quote] @ headerEnd @ crlf)"

definition ex_headers :: buffer where
  "ex_headers = Buffer_from (js ''Content-Disposition: form-data; name=''
     @ [quote] @ js ''f2'' @ [quote] @ js ''; filename='' @ [quote] @ js ''b.txt'' @ [quote])"

definition ex_part_file :: buffer where
  "ex_part_file = filePart ex_headers (Buffer_from (js ''hi''))"

definition ex_epilogue :: buffer where
  "ex_epilogue = Buffer_from (js ''--'' @ crlf)"

definition ex_body :: buffer where
  "ex_body = multipart ex_boundary [] [ex_part_noname, ex_part_file] ex_epilogue"

section \<open>Example requests and generated identifiers\<close>

text \<open>
  \<open>generateUniqueId\<close> returns 32 hexadecimal digits. What the handlers need of an id
  is that it is not empty and has neither a dot nor a slash.
\<close>

definition plain_id :: "jsstring \<Rightarrow> bool" where
  "plain_id s \<longleftrightarrow> s \<noteq> [] \<and> dot \<notin> set s \<and> slash \<notin> set s"

definition ex_contentType :: jsstring where
  "ex_contentType = js ''multipart/form-data; boundary=X''"

definition ex_session :: jsstring where
  "ex_session = js ''s1''"

definition ex_env :: upload_env where
  "ex_env = \<lparr>newFileId = js ''ab12'', clockUpload = 1000, clockExpiry = 1001, writeFails = False\<rparr>"

definition ex_server :: server where
  "ex_server = \<lparr>fileDatabase = [],
                 userSessions = [(ex_session, \<lparr>created = 0, files = []\<rparr>)],
                 disk = Map.empty,
                 prototypeDownloaded = False\<rparr>"

text \<open>A store in which the id that \<open>ex_env\<close> generates is already taken by a file of another session.\<close>

definition ex_old_record :: fileMeta where
  "ex_old_record = \<lparr>originalName = js ''old.txt'', filename = js ''ab12.txt'', size_f = 3,
     uploadTime = 0, expiryTime = 500, downloaded = False, sessionId = js ''s0''\<rparr>"

definition ex_path :: jsstring where
  "ex_path = js ''/usr/src/app/uploads/ab12.txt''"

definition ex_server_taken :: server where
  "ex_server_taken =
     \<lparr>fileDatabase = [(js ''ab12'', ex_old_record)],
      userSessions = [(ex_session, \<lparr>created = 0, files = []\<rparr>),
                      (js ''s0'', \<lparr>created = 0, files = [js ''ab12'']\<rparr>)],
      disk = [ex_path \<mapsto> Buffer_from (js ''old'')],
      prototypeDownloaded = False\<rparr>"


text \<open>The file system that refuses no deletion.\<close>

definition never :: "jsstring \<Rightarrow> bool" where
  "never p = False"


section \<open>Notions for the sweep\<close>

text \<open>
  The detaching of a file id from a session's list, as the sweep and the \<open>finish\<close>
  callback write it inline: only when the session id is truthy and the session exists.
\<close>

definition detach :: "jsstring \<Rightarrow> jsstring \<Rightarrow> server \<Rightarrow> server" where
  "detach sid fileId st =
     (case map_of (userSessions st) sid of
        Some sess \<Rightarrow>
          if sid \<noteq> [] then
            st\<lparr>userSessions := AList.update sid
                  (sess\<lparr>files := filter (\<lambda>i. i \<noteq> fileId) (files sess)\<rparr>) (userSessions st)\<rparr>
          else st
      | None \<Rightarrow> st)"

text \<open>
  The bytes of a record cannot be deleted: they are on disk, at the path the handlers
  join from the record's \<open>filename\<close>, and the file system refuses the deletion there.
\<close>

definition undeletable :: "server \<Rightarrow> (jsstring \<Rightarrow> bool) \<Rightarrow> fileMeta \<Rightarrow> bool" where
  "undeletable st fails m \<longleftrightarrow>
     disk st (path_join UPLOAD_DIR (filename m)) \<noteq> None \<and> fails (path_join UPLOAD_DIR (filename m))"

text \<open>A record that a sweep at time \<open>now\<close> removes: expired, and not undeletable.\<close>

definition sweepable :: "int \<Rightarrow> (jsstring \<Rightarrow> bool) \<Rightarrow> server \<Rightarrow> fileMeta \<Rightarrow> bool" where
  "sweepable now fails st m \<longleftrightarrow> now > expiryTime m \<and> \<not> undeletable st fails m"


section \<open>Reachable stores\<close>

text \<open>
  The stores the server can be in, together with a record of which session each
  generated file id was handed to. The process starts with empty dictionaries, on a
  file system that holds anything (so a start is also a restart after an uncaught
  exception). Every handler may run at any time, with any input; a handler that ends in
  an uncaught exception has no store after it. The \<open>end\<close> handler of an upload is
  given a file id that \<open>generateUniqueId\<close> has not returned before, which is how the 128
  random bits are read here. The session id of an upload is the one resolved when the
  request arrived: the session need not exist any more, and the id may be a cookie
  value that names an inherited property.
\<close>

inductive reach :: "server \<Rightarrow> (jsstring \<rightharpoonup> jsstring) \<Rightarrow> bool" where
  start: "reach \<lparr>fileDatabase = [], userSessions = [], disk = files_on_disk,
                 prototypeDownloaded = False\<rparr> Map.empty"
| request: "reach st up \<Longrightarrow> reach (snd (getOrCreateSession st cookie newSessionId now)) up"
| uploaded: "reach st up \<Longrightarrow> newFileId env \<notin> dom up
    \<Longrightarrow> reach (snd (upload st sid contentTypeHeader buffer env)) (up(newFileId env \<mapsto> sid))"
| download_started: "reach st up \<Longrightarrow> downloadStart st name = Some (answer, st')
    \<Longrightarrow> reach st' up"
| download_finished: "reach st up \<Longrightarrow> reach (snd (downloadFinish st name fails)) up"
| session_reset: "reach st up
    \<Longrightarrow> resetSession st sid fails newSessionId now = Some (answer, logged, st')
    \<Longrightarrow> reach st' up"
| swept: "reach st up \<Longrightarrow> reach (snd (sweep now fails st)) up"

text \<open>
  The invariant behind session isolation: a file id in a session's list was handed to
  that session, and a record's \<open>sessionId\<close> is the session its id was handed to.
\<close>

definition attributed :: "server \<Rightarrow> (jsstring \<rightharpoonup> jsstring) \<Rightarrow> bool" where
  "attributed st up \<longleftrightarrow>
     (\<forall>sid sess fid. map_of (userSessions st) sid = Some sess \<and> fid \<in> set (files sess)
        \<longrightarrow> up fid = Some sid) \<and>
     (\<forall>fid m. map_of (fileDatabase st) fid = Some m \<longrightarrow> up fid = Some (sessionId m))"

text \<open>
  Deletions, detachments and the \<open>downloaded\<close> mark only shrink the stores: every
  session afterwards was there before with at least the same files, and every record
  afterwards was there before with the same owner.
\<close>

definition shrinks :: "server \<Rightarrow> server \<Rightarrow> bool" where
  "shrinks st st' \<longleftrightarrow>
     (\<forall>sid sess'. map_of (userSessions st') sid = Some sess'
        \<longrightarrow> (\<exists>sess. map_of (userSessions st) sid = Some sess \<and> set (files sess') \<subseteq> set (files sess))) \<and>
     (\<forall>fid m'. map_of (fileDatabase st') fid = Some m'
        \<longrightarrow> (\<exists>m. map_of (fileDatabase st) fid = Some m \<and> sessionId m' = sessionId m))"

text \<open>
  A reachable store: two sessions are created, then \<open>ex_body\<close> is uploaded under the
  first one.
\<close>

definition ex_started :: server where
  "ex_started = snd (getOrCreateSession
     (snd (getOrCreateSession
             \<lparr>fileDatabase = [], userSessions = [], disk = Map.empty, prototypeDownloaded = False\<rparr>
             None ex_session 0))
     None (js ''s0'') 0)"

definition ex_reached :: server where
  "ex_reached = snd (upload ex_started ex_session (Some ex_contentType) ex_body ex_env)"

definition ex_uploaders :: "jsstring \<rightharpoonup> jsstring" where
  "ex_uploaders = Map.empty(newFileId ex_env \<mapsto> ex_session)"

definition ex_entry :: file_entry where
  "ex_entry = FileEntry (js ''ab12'') (js ''b.txt'') 2 1000 (1001 + FILE_EXPIRY) (js ''ab12.txt'')"

section \<open>Stores up to the \<open>downloaded\<close> flags\<close>

text \<open>
  \<open>erase\<close> sets every \<open>downloaded\<close> flag of the store to false. Two stores differ
  only in the values of the flags exactly when \<open>erase\<close> makes them equal. The
  property that a download of \<open>__proto__\<close> puts on the shared prototype belongs to no
  record; \<open>erase\<close> keeps it.
\<close>

definition unflag :: "fileMeta \<Rightarrow> fileMeta" where
  "unflag m = m\<lparr>downloaded := False\<rparr>"

definition unflag_all :: "(jsstring \<times> fileMeta) list \<Rightarrow> (jsstring \<times> fileMeta) list" where
  "unflag_all db = map (\<lambda>e. (fst e, unflag (snd e))) db"

definition erase :: "server \<Rightarrow> server" where
  "erase st = st\<lparr>fileDatabase := unflag_all (fileDatabase st)\<rparr>"

text \<open>The store \<open>ex_server_taken\<close> with the flag of its record set.\<close>

definition ex_flagged :: server where
  "ex_flagged = ex_server_taken\<lparr>fileDatabase := [(js ''ab12'', ex_old_record\<lparr>downloaded := True\<rparr>)]\<rparr>"

section \<open>The simple server (\<open>server.js\<close>)\<close>

text \<open>
  \<open>server.js\<close> keeps the file database without sessions and parses the upload as
  text. Its upload handler decodes the whole body with \<open>toString()\<close>, splits the text
  at \<open>'--' + boundary\<close>, and writes the content back as a string.
\<close>

record simple_server =
  simpleDatabase :: "(jsstring \<times> simpleMeta) list"
  simpleDisk :: "jsstring \<rightharpoonup> buffer"
  simplePrototypeDownloaded :: bool

text \<open>
  \<open>s.split(sep)\<close> for a separator that is not empty: the pieces between the
  occurrences of the separator, found from left to right without overlap. \<open>skip\<close>
  counts the characters of a separator just found that are still to be passed over.
\<close>

fun split_go :: "jsstring \<Rightarrow> jsstring \<Rightarrow> nat \<Rightarrow> jsstring \<Rightarrow> jsstring list" where
  "split_go sep acc skip [] = [rev acc]"
| "split_go sep acc skip (c # cs) =
     (if skip > 0 then split_go sep acc (skip - 1) cs
      else if prefix sep (c # cs) then rev acc # split_go sep [] (length sep - 1) cs
      else split_go sep (c # acc) 0 cs)"

definition js_split :: "jsstring \<Rightarrow> jsstring \<Rightarrow> jsstring list" where
  "js_split s sep = split_go sep [] 0 s"

text \<open>\<open>s.lastIndexOf(needle)\<close>; \<open>None\<close> is \<open>-1\<close>.\<close>

definition lastIndexOf :: "jsstring \<Rightarrow> jsstring \<Rightarrow> nat option" where
  "lastIndexOf s needle =
     map_option (\<lambda>i. length s - i - length needle) (index_of (rev needle) (rev s))"

text \<open>
  The regular expression \<open>/filename="(.+?)"/\<close>: the leftmost position where
  \<open>filename="\<close> is followed by one character that is not a line terminator, then by
  the shortest run of such characters that ends before a quote. The dot matches a
  quote, so the first captured character may be one.
\<close>

definition lineTerminator :: "nat \<Rightarrow> bool" where
  "lineTerminator c \<longleftrightarrow> c = 10 \<or> c = 13 \<or> c = 0x2028 \<or> c = 0x2029"

fun filenameMatchLazy :: "jsstring \<Rightarrow> jsstring option" where
  "filenameMatchLazy [] = None"
| "filenameMatchLazy (c # cs) =
     (if prefix (js ''filename='' @ [quote]) (c # cs) then
        (case drop 10 (c # cs) of
           [] \<Rightarrow> filenameMatchLazy cs
         | c1 # rest \<Rightarrow>
             (let run = takeWhile (\<lambda>x. x \<noteq> quote \<and> \<not> lineTerminator x) rest;
                  after = dropWhile (\<lambda>x. x \<noteq> quote \<and> \<not> lineTerminator x) rest
              in if \<not> lineTerminator c1 \<and> after \<noteq> [] \<and> hd after = quote
                 then Some (c1 # run) else filenameMatchLazy cs))
      else filenameMatchLazy cs)"

text \<open>
  The loop \<open>for (const part of parts)\<close> with its two variables. \<open>fileName\<close> is assigned
  as soon as the expression matches, also when the part has no blank line and the loop
  goes on; \<open>break\<close> returns.
\<close>

fun findFilePart :: "jsstring list \<Rightarrow> jsstring \<times> jsstring option \<Rightarrow> jsstring \<times> jsstring option" where
  "findFilePart [] found = found"
| "findFilePart (part # parts) found =
     (if includes_buf part (js ''filename='') then
        (case filenameMatchLazy part of
           None \<Rightarrow> findFilePart parts found
         | Some name \<Rightarrow>
             (case indexOf part headerEnd 0 of
                None \<Rightarrow> findFilePart parts (name, snd found)
              | Some contentIndex \<Rightarrow>
                  (let content = drop (contentIndex + 4) part
                   in (name, Some (slice content 0
                         (case lastIndexOf content crlf of None \<Rightarrow> 0 | Some i \<Rightarrow> i))))))
      else findFilePart parts found)"

text \<open>
  The \<open>end\<close> handler of \<open>server.js\<close>. Without a \<open>content-type\<close> header the call
  \<open>req.headers['content-type'].split\<close> is a \<open>TypeError\<close>, and the \<open>catch\<close> answers 500.
  A header without \<open>boundary=\<close> gives \<open>undefined\<close>, which the template string turns
  into the text \<open>undefined\<close>. A string is falsy when it is empty, so
  \<open>!fileName || !fileContent\<close> rejects an empty content. \<open>fs.writeFileSync\<close> encodes
  the string as UTF-8, and \<open>size\<close> is the length of the string.
\<close>

definition upload_simple :: "simple_server \<Rightarrow> jsstring option \<Rightarrow> buffer \<Rightarrow> upload_env
    \<Rightarrow> response \<times> simple_server" where
  "upload_simple st contentTypeHeader bodyBuffer env =
     (case contentTypeHeader of
        None \<Rightarrow> ((500, Error ''File upload failed''), st)
      | Some contentType \<Rightarrow>
          (let boundary = (case js_split contentType (js ''boundary='') of
                             x # y # zs \<Rightarrow> y
                           | _ \<Rightarrow> js ''undefined'');
               parts = js_split (toString bodyBuffer) (dashes @ boundary);
               found = findFilePart parts ([], None)
           in case snd found of
                None \<Rightarrow> ((400, Error ''No file uploaded''), st)
              | Some content \<Rightarrow>
                  if fst found = [] \<or> content = [] then ((400, Error ''No file uploaded''), st)
                  else
                    (let name = fst found;
                         fileId = newFileId env;
                         fileExtension = extname name;
                         uniqueFilename = fileId @ fileExtension;
                         filePath = path_join UPLOAD_DIR uniqueFilename
                     in if writeFails env then ((500, Error ''File upload failed''), st)
                        else
                          ((200, Uploaded fileId uniqueFilename (clockExpiry env + FILE_EXPIRY)),
                           st\<lparr>simpleDisk := (simpleDisk st)(filePath \<mapsto> Buffer_from content),
                              simpleDatabase := AList.update fileId
                                \<lparr>originalName = name,
                                 filename = uniqueFilename,
                                 size_f = jslength content,
                                 uploadTime = clockUpload env,
                                 expiryTime = clockExpiry env + FILE_EXPIRY,
                                 downloaded = False\<rparr> (simpleDatabase st)\<rparr>))))"

text \<open>
  The synchronous part of the download handler of \<open>server.js\<close>, line for line that of
  the server with sessions.
\<close>

definition download_simple :: "simple_server \<Rightarrow> jsstring \<Rightarrow> (response \<times> simple_server) option" where
  "download_simple st name =
     (let fileId = fileIdOf name;
          filePath = path_join UPLOAD_DIR name
      in case (simpleDisk st filePath,
               getProperty (simplePrototypeDownloaded st) (simpleDatabase st) fileId) of
           (None, found) \<Rightarrow> Some ((404, Error ''File not found or expired''), st)
         | (Some bytes, Missing) \<Rightarrow> Some ((404, Error ''File not found or expired''), st)
         | (Some bytes, Own metadata) \<Rightarrow>
             if list_all validHeaderChar (contentDisposition (originalName metadata)) then
               Some ((200, Attachment (originalName metadata) bytes),
                     st\<lparr>simpleDatabase := AList.update fileId (metadata\<lparr>downloaded := True\<rparr>)
                           (simpleDatabase st)\<rparr>)
             else None
         | (Some bytes, Inherited) \<Rightarrow>
             Some ((200, Attachment (js ''undefined'') bytes),
                   if fileId = js ''__proto__'' then st\<lparr>simplePrototypeDownloaded := True\<rparr>
                   else st))"

text \<open>
  Requests for the simple server: a file whose content is the single byte \<open>0xFF\<close>,
  and a file with no content.
\<close>

definition ex_simple_server :: simple_server where
  "ex_simple_server =
     \<lparr>simpleDatabase = [], simpleDisk = Map.empty, simplePrototypeDownloaded = False\<rparr>"

definition ex_ff_body :: buffer where
  "ex_ff_body = multipart ex_boundary [] [filePart ex_headers [0xFF]] ex_epilogue"

definition ex_empty_body :: buffer where
  "ex_empty_body = multipart ex_boundary [] [filePart ex_headers []] ex_epilogue"

section \<open>Properties of the buffer primitives\<close>

lemma index_of_Some_iff:
  "index_of d xs = Some i \<longleftrightarrow>
     i \<le> length xs \<and> prefix d (drop i xs) \<and> (\<forall>j<i. \<not> prefix d (drop j xs))"
proof (induction xs arbitrary: i)
  case Nil
  then show ?case by auto
next
  case (Cons x xs)
  show ?case
  proof (cases "prefix d (x # xs)")
    case True
    then show ?thesis by (cases i) auto
  next
    case False
    show ?thesis
    proof (cases i)
      case 0
      with False show ?thesis by simp
    next
      case (Suc k)
      have "(\<forall>j<Suc k. \<not> prefix d (drop j (x # xs))) \<longleftrightarrow> (\<forall>j<k. \<not> prefix d (drop j xs))"
        using False by (auto simp: less_Suc_eq_0_disj)
      with False Suc Cons.IH [of k] show ?thesis by auto
    qed
  qed
qed

lemma index_of_None_iff:
  "index_of d xs = None \<longleftrightarrow> (\<forall>j\<le>length xs. \<not> prefix d (drop j xs))"
proof (induction xs)
  case Nil
  then show ?case by auto
next
  case (Cons x xs)
  have "(\<forall>j\<le>length (x # xs). \<not> prefix d (drop j (x # xs))) \<longleftrightarrow>
        (\<not> prefix d (x # xs) \<and> (\<forall>j\<le>length xs. \<not> prefix d (drop j xs)))"
  proof
    assume a: "\<forall>j\<le>length (x # xs). \<not> prefix d (drop j (x # xs))"
    have "\<not> prefix d (x # xs)" using a [rule_format, of 0] by simp
    moreover have "\<forall>j\<le>length xs. \<not> prefix d (drop j xs)"
    proof (intro allI impI)
      fix j assume "j \<le> length xs"
      then show "\<not> prefix d (drop j xs)" using a [rule_format, of "Suc j"] by simp
    qed
    ultimately show "\<not> prefix d (x # xs) \<and> (\<forall>j\<le>length xs. \<not> prefix d (drop j xs))" by simp
  next
    assume a: "\<not> prefix d (x # xs) \<and> (\<forall>j\<le>length xs. \<not> prefix d (drop j xs))"
    show "\<forall>j\<le>length (x # xs). \<not> prefix d (drop j (x # xs))"
    proof (intro allI impI)
      fix j assume j: "j \<le> length (x # xs)"
      show "\<not> prefix d (drop j (x # xs))"
      proof (cases j)
        case 0
        with a show ?thesis by simp
      next
        case (Suc k)
        with a j show ?thesis by simp
      qed
    qed
  qed
  with Cons show ?case by auto
qed


lemma prefix_drop_append:
  assumes "prefix d (drop j (x @ d @ r))" "j \<le> length x"
  shows "prefix d (drop j (x @ d))"
proof -
  have e: "drop j (x @ d @ r) = drop j (x @ d) @ r" using assms(2) by simp
  have l: "length d \<le> length (drop j (x @ d))" using assms(2) by simp
  from assms(1) e have "prefix d (drop j (x @ d) @ r)" by simp
  with l show ?thesis by (metis prefix_length_prefix prefixI prefix_order.refl)
qed

lemma index_of_first_delim:
  assumes "delimiter_free d x"
  shows "index_of d (x @ d @ r) = Some (length x)"
proof -
  from assms have a: "\<forall>j<length x. \<not> prefix d (drop j (x @ d))"
    by (simp add: delimiter_free_def index_of_Some_iff)
  have "\<forall>j<length x. \<not> prefix d (drop j (x @ d @ r))"
    using a prefix_drop_append [of d _ x r] by (meson less_imp_le_nat)
  then show ?thesis by (simp add: index_of_Some_iff)
qed

lemma boundaryPositions_shift:
  "pos \<le> length buf \<Longrightarrow>
   boundaryPositions buf b pos = map (\<lambda>i. i + pos) (boundaryPositions (drop pos buf) b 0)"
proof (induction "length buf - pos" arbitrary: buf pos rule: less_induct)
  case less
  let ?d = "boundaryBuffer b"
  show ?case
  proof (cases "index_of ?d (drop pos buf)")
    case None
    then show ?thesis by (subst (1 2) boundaryPositions.simps) (simp add: indexOf_def)
  next
    case (Some j)
    from index_of_bounds [OF Some] have jb: "j + length ?d \<le> length buf - pos" by simp
    have d2: "2 \<le> length ?d" by (rule length_boundaryBuffer)
    have l: "boundaryPositions buf b pos = (j + pos) # boundaryPositions buf b (j + pos + length ?d)"
      using Some by (subst boundaryPositions.simps) (simp add: indexOf_def)
    have r: "boundaryPositions (drop pos buf) b 0 = j # boundaryPositions (drop pos buf) b (j + length ?d)"
      using Some by (subst boundaryPositions.simps) (simp add: indexOf_def)
    have i1: "boundaryPositions buf b (j + pos + length ?d)
        = map (\<lambda>i. i + (j + pos + length ?d)) (boundaryPositions (drop (j + pos + length ?d) buf) b 0)"
      using less.prems jb d2 by (intro less.hyps) auto
    have i2: "boundaryPositions (drop pos buf) b (j + length ?d)
        = map (\<lambda>i. i + (j + length ?d)) (boundaryPositions (drop (j + length ?d) (drop pos buf)) b 0)"
      using less.prems jb d2 by (intro less.hyps) auto
    have e: "drop (j + length ?d) (drop pos buf) = drop (j + pos + length ?d) buf"
      by (simp add: ac_simps)
    show ?thesis unfolding l r i1 i2 e by (simp add: add.assoc add.commute add.left_commute)
  qed
qed

lemma segments_shift:
  "segments buf blen (map (\<lambda>i. i + k) ps) = segments (drop k buf) blen ps"
proof (induction buf blen ps rule: segments.induct)
  case (1 buffer blen p q rest)
  have "slice buffer (p + k + blen) (q + k) = slice (drop k buffer) (p + blen) q"
    by (simp add: slice_def take_drop add.commute add.left_commute)
  with 1 show ?case by simp
qed simp_all


lemma partsOf_last:
  assumes "delimiter_free (boundaryBuffer b) x" "index_of (boundaryBuffer b) epi = None"
  shows "partsOf (x @ boundaryBuffer b @ epi) b = []"
proof -
  let ?d = "boundaryBuffer b"
  let ?buf = "x @ ?d @ epi"
  have i: "index_of ?d ?buf = Some (length x)" by (rule index_of_first_delim [OF assms(1)])
  have "boundaryPositions ?buf b (length x + length ?d) = []"
    using assms(2) by (subst boundaryPositions.simps) (simp add: indexOf_def)
  then have "boundaryPositions ?buf b 0 = [length x]"
    using i by (subst boundaryPositions.simps) (simp add: indexOf_def)
  then show ?thesis by (simp add: partsOf_def)
qed

lemma partsOf_step:
  assumes "delimiter_free (boundaryBuffer b) x" "delimiter_free (boundaryBuffer b) y"
  shows "partsOf (x @ boundaryBuffer b @ y @ boundaryBuffer b @ r) b
         = y # partsOf (y @ boundaryBuffer b @ r) b"
proof -
  let ?d = "boundaryBuffer b"
  let ?rest = "y @ ?d @ r"
  let ?buf = "x @ ?d @ ?rest"
  let ?k = "length x + length ?d"
  have i: "index_of ?d ?buf = Some (length x)" by (rule index_of_first_delim [OF assms(1)])
  have j: "index_of ?d ?rest = Some (length y)" by (rule index_of_first_delim [OF assms(2)])
  have sh: "boundaryPositions ?buf b ?k = map (\<lambda>i. i + ?k) (boundaryPositions ?rest b 0)"
    using boundaryPositions_shift [of ?k ?buf b] by simp
  have "boundaryPositions ?rest b 0 = length y # boundaryPositions ?rest b (length y + length ?d)"
    using j by (subst boundaryPositions.simps) (simp add: indexOf_def)
  then obtain qs where q: "boundaryPositions ?rest b 0 = length y # qs" by blast
  have "boundaryPositions ?buf b 0 = length x # boundaryPositions ?buf b ?k"
    using i by (subst boundaryPositions.simps) (simp add: indexOf_def)
  then have p: "boundaryPositions ?buf b 0 = length x # map (\<lambda>i. i + ?k) (length y # qs)"
    using sh q by simp
  have "partsOf ?buf b = segments ?buf (length ?d) (length x # (length y + ?k) # map (\<lambda>i. i + ?k) qs)"
    by (simp add: partsOf_def p)
  also have "\<dots> = slice ?buf ?k (length y + ?k) # segments ?buf (length ?d) (map (\<lambda>i. i + ?k) (length y # qs))"
    by simp
  also have "slice ?buf ?k (length y + ?k) = y"
    by (simp add: slice_def)
  also have "segments ?buf (length ?d) (map (\<lambda>i. i + ?k) (length y # qs)) = segments ?rest (length ?d) (length y # qs)"
    using segments_shift [of ?buf "length ?d" ?k "length y # qs"] by simp
  finally show ?thesis by (simp add: partsOf_def q)
qed

lemma partsOf_multipart:
  assumes "well_formed b pre ps epi"
  shows "partsOf (multipart b pre ps epi) b = ps"
  using assms unfolding well_formed_def list_all_iff
proof (induction ps arbitrary: pre)
  case Nil
  then show ?case by (simp add: partsOf_last)
next
  case (Cons p ps)
  show ?case
  proof (cases ps)
    case Nil
    with Cons.prems show ?thesis using partsOf_step [of b pre p epi] partsOf_last [of b p epi] by simp
  next
    case (Cons q qs)
    with Cons.prems Cons.IH [of p] show ?thesis using partsOf_step [of b pre p "multipart b q qs epi"]
      by simp
  qed
qed


lemma length_headerEndBuffer: "length headerEndBuffer = 4"
  by (simp add: headerEndBuffer_def headerEnd_def Buffer_from_def utf8_encode_cp_def)

lemma length_crlfBuffer: "length crlfBuffer = 2"
  by (simp add: crlfBuffer_def crlf_def Buffer_from_def utf8_encode_cp_def)

lemma processParts_step:
  "processParts buffer blen (p # q # rest) =
     (if qualifies (slice buffer (p + blen) q) then honored (slice buffer (p + blen) q)
      else processParts buffer blen (q # rest))"
  by (simp add: qualifies_def honored_def Let_def length_headerEndBuffer split: option.splits)

lemma processParts_firstQualifying:
  "processParts buffer blen ps = firstQualifying (segments buffer blen ps)"
proof (induction buffer blen ps rule: segments.induct)
  case (1 buffer blen p q rest)
  then show ?case
    by (simp only: processParts_step segments.simps firstQualifying_def find.simps split: if_splits)
      simp
qed (simp_all add: firstQualifying_def)

lemma parse_firstQualifying:
  "parseMultipartFormData buffer boundary = firstQualifying (partsOf buffer boundary)"
  by (simp add: parseMultipartFormData_def partsOf_def processParts_firstQualifying)

lemma index_of_append_Some:
  assumes "index_of d xs = Some i"
  shows "index_of d (xs @ r) = Some i"
proof -
  from assms have a: "i \<le> length xs" "prefix d (drop i xs)" "\<forall>j<i. \<not> prefix d (drop j xs)"
    by (simp_all add: index_of_Some_iff)
  from index_of_bounds [OF assms] have b: "i + length d \<le> length xs" .
  have "prefix d (drop i (xs @ r))" using a(1,2) by (simp add: prefix_prefix)
  moreover have "\<forall>j<i. \<not> prefix d (drop j (xs @ r))"
  proof (intro allI impI notI)
    fix j assume j: "j < i" and p: "prefix d (drop j (xs @ r))"
    have "length d \<le> length (drop j xs)" using b j by simp
    moreover have "prefix d (drop j xs @ r)" using p j a(1) by simp
    ultimately have "prefix d (drop j xs)" by (metis prefix_length_prefix prefixI prefix_order.refl)
    with a(3) j show False by simp
  qed
  ultimately show ?thesis using a(1) by (simp add: index_of_Some_iff)
qed

lemma includes_buf_append: "includes_buf xs m \<Longrightarrow> includes_buf (xs @ r) m"
  by (auto simp: includes_buf_def indexOf_def dest: index_of_append_Some)

lemma honored_filePart:
  assumes "file_headers headers name"
  shows "qualifies (filePart headers content)"
    and "honored (filePart headers content) = \<lparr>fileName = Some name, fileContent = Some content\<rparr>"
proof -
  let ?x = "crlfBuffer @ headers"
  let ?part = "filePart headers content"
  have e: "?part = ?x @ headerEndBuffer @ content @ crlfBuffer" by (simp add: filePart_def)
  from assms have df: "delimiter_free headerEndBuffer ?x"
    and inc: "includes_buf ?x filenameMarker"
    and fm: "filenameMatch (toString ?x) = Some name"
    by (simp_all add: file_headers_def)
  have i: "indexOf ?part headerEndBuffer 0 = Some (length ?x)"
    unfolding e indexOf_def using index_of_first_delim [OF df] by simp
  have s1: "slice ?part 0 (length ?x) = ?x" unfolding e slice_def by simp
  have s2: "slice ?part (length ?x + 4) (length ?part - 2) = content"
    unfolding e slice_def by (simp add: length_headerEndBuffer length_crlfBuffer)
  have inc': "includes_buf ?part filenameMarker"
    using includes_buf_append [OF inc, of "headerEndBuffer @ content @ crlfBuffer"] e by simp
  show "qualifies ?part" using inc' i s1 fm by (simp add: qualifies_def)
  show "honored ?part = \<lparr>fileName = Some name, fileContent = Some content\<rparr>"
    using i s1 s2 fm by (simp add: honored_def)
qed


section \<open>The example body, evaluated\<close>

lemmas buffer_defs = js_def Buffer_from_def utf8_encode_cp_def crlf_def headerEnd_def quote_def
  boundaryBuffer_def dashes_def headerEndBuffer_def filenameMarker_def crlfBuffer_def filePart_def

lemmas ex_defs = ex_body_def ex_boundary_def ex_part_noname_def ex_part_file_def ex_headers_def
  ex_epilogue_def

lemma ex_well_formed: "well_formed ex_boundary [] [ex_part_noname, ex_part_file] ex_epilogue"
  by (simp add: well_formed_def delimiter_free_def ex_defs buffer_defs)

lemma ex_file_headers: "file_headers ex_headers (js ''b.txt'')"
  by (simp add: file_headers_def delimiter_free_def includes_buf_def indexOf_def toString_def
      utf8_first_def utf8_idle_def ex_defs buffer_defs)

lemma ex_noname_marked: "marked_and_terminated ex_part_noname"
  by (simp add: marked_and_terminated_def includes_buf_def indexOf_def ex_defs buffer_defs)

lemma ex_noname_honored:
  "honored ex_part_noname = \<lparr>fileName = None, fileContent = Some []\<rparr>"
  by (simp add: honored_def indexOf_def slice_def toString_def utf8_first_def utf8_idle_def
      ex_defs buffer_defs)

lemma ex_noname_not_qualifies: "\<not> qualifies ex_part_noname"
  by (simp add: qualifies_def includes_buf_def indexOf_def slice_def toString_def
      utf8_first_def utf8_idle_def ex_defs buffer_defs)

lemma ex_parse:
  "parseMultipartFormData ex_body ex_boundary =
     \<lparr>fileName = Some (js ''b.txt''), fileContent = Some (Buffer_from (js ''hi''))\<rparr>"
proof -
  have "parseMultipartFormData ex_body ex_boundary = firstQualifying [ex_part_noname, ex_part_file]"
    using partsOf_multipart [OF ex_well_formed] by (simp add: parse_firstQualifying ex_body_def)
  also have "\<dots> = honored ex_part_file"
    using ex_noname_not_qualifies honored_filePart(1) [OF ex_file_headers]
    by (simp add: firstQualifying_def ex_part_file_def)
  finally show ?thesis
    using honored_filePart(2) [OF ex_file_headers] by (simp add: ex_part_file_def)
qed

section \<open>The extractor honors the first qualifying part\<close>

text \<open>
  Claim C6, as amended. For every well-formed multipart body the extractor returns the
  name and payload of the first part that contains the \<open>filename=\<close> marker, has a
  double-CRLF header terminator, and whose header block before that terminator matches
  \<open>filename="..."\<close> with a non-empty name. Parts before it that lack the marker, the
  terminator or the match are skipped, parts after it are ignored, and when no part
  qualifies both results are null.
\<close>

theorem extractor_honors_first_qualifying_part:
  assumes "well_formed b pre ps epi"
  shows "parseMultipartFormData (multipart b pre ps epi) b =
           (case find qualifies ps of
              None \<Rightarrow> \<lparr>fileName = None, fileContent = None\<rparr>
            | Some p \<Rightarrow> honored p)"
  using partsOf_multipart [OF assms]
  by (simp add: parse_firstQualifying firstQualifying_def)

theorem extractor_honors_first_qualifying_part_witness:
  "well_formed ex_boundary [] [ex_part_noname, ex_part_file] ex_epilogue \<and>
   parseMultipartFormData ex_body ex_boundary = honored ex_part_file"
proof -
  have q: "qualifies ex_part_file"
    using honored_filePart(1) [OF ex_file_headers] by (simp add: ex_part_file_def)
  from extractor_honors_first_qualifying_part [OF ex_well_formed] ex_noname_not_qualifies q
    ex_well_formed
  show ?thesis by (simp add: ex_body_def)
qed

text \<open>
  Claim C6, as stated, fails: the first part of \<open>ex_body\<close> contains the marker and a
  double CRLF, and the extractor skips it because its header declares \<open>filename=""\<close>;
  the name and payload returned are those of the second part.
\<close>

theorem marker_and_terminator_do_not_qualify:
  "find marked_and_terminated (partsOf ex_body ex_boundary) = Some ex_part_noname \<and>
   parseMultipartFormData ex_body ex_boundary \<noteq> honored ex_part_noname \<and>
   parseMultipartFormData ex_body ex_boundary =
     \<lparr>fileName = Some (js ''b.txt''), fileContent = Some (Buffer_from (js ''hi''))\<rparr>"
proof -
  have "partsOf ex_body ex_boundary = [ex_part_noname, ex_part_file]"
    using partsOf_multipart [OF ex_well_formed] by (simp add: ex_body_def)
  then show ?thesis
    using ex_noname_marked by (simp add: ex_parse ex_noname_honored)
qed

section \<open>Paths of stored files\<close>

lemma last_segment_no_slash: "slash \<notin> set (last_segment p)"
proof -
  have "\<forall>c\<in>set (takeWhile (\<lambda>c. c \<noteq> slash) xs). c \<noteq> slash" for xs
    by (auto dest: set_takeWhileD)
  then show ?thesis by (auto simp: last_segment_def)
qed

lemma extname_cases:
  "extname p = [] \<or> (\<exists>e. extname p = dot # e \<and> dot \<notin> set e \<and> slash \<notin> set e)"
proof -
  let ?seg = "last_segment p"
  let ?e = "rev (takeWhile (\<lambda>c. c \<noteq> dot) (rev ?seg))"
  have d: "dot \<notin> set ?e" by (auto dest: set_takeWhileD)
  have "set ?e \<subseteq> set ?seg" by (auto dest: set_takeWhileD)
  with last_segment_no_slash [of p] have s: "slash \<notin> set ?e" by blast
  show ?thesis using d s by (auto simp: extname_def Let_def)
qed

lemma last_segment_plain:
  assumes "slash \<notin> set p"
  shows "last_segment p = p"
proof -
  have a: "dropWhile (\<lambda>c. c = slash) (rev p) = rev p"
    using assms by (cases "rev p") (auto simp: rev_swap [symmetric])
  have b: "takeWhile (\<lambda>c. c \<noteq> slash) (rev p) = rev p"
    using assms by (intro takeWhile_eq_all_conv [THEN iffD2]) auto
  show ?thesis by (simp only: last_segment_def a b rev_rev_ident)
qed

lemma fileIdOf_plain:
  assumes "plain_id fid"
  shows "fileIdOf (fid @ extname name) = fid"
proof -
  from assms have ne: "fid \<noteq> []" and nd: "dot \<notin> set fid" and ns: "slash \<notin> set fid"
    by (simp_all add: plain_id_def)
  from extname_cases [of name] show ?thesis
  proof
    assume e: "extname name = []"
    have "last_segment fid = fid" by (rule last_segment_plain [OF ns])
    then have "extname fid = []" using nd by (simp add: extname_def Let_def)
    then show ?thesis using e \<open>last_segment fid = fid\<close> by (simp add: fileIdOf_def basename_def)
  next
    assume "\<exists>e. extname name = dot # e \<and> dot \<notin> set e \<and> slash \<notin> set e"
    then obtain e where e: "extname name = dot # e" "dot \<notin> set e" "slash \<notin> set e" by blast
    let ?p = "fid @ dot # e"
    have "slash \<notin> set ?p" using ns e(3) by (simp add: dot_def slash_def)
    then have seg: "last_segment ?p = ?p" by (rule last_segment_plain)
    have tw: "takeWhile (\<lambda>c. c \<noteq> dot) (rev ?p) = rev e"
    proof -
      have "takeWhile (\<lambda>c. c \<noteq> dot) (rev e @ dot # rev fid)
            = rev e @ takeWhile (\<lambda>c. c \<noteq> dot) (dot # rev fid)"
        using e(2) by (intro takeWhile_append2) auto
      then show ?thesis by simp
    qed
    have n2: "?p \<noteq> [dot, dot]" using ne nd by (cases fid) auto
    have ex: "extname ?p = dot # e"
      using seg tw ne n2 by (simp add: extname_def Let_def)
    have "basename ?p (dot # e) = fid"
      using seg ne by (simp add: basename_def suffix_def)
    with ex e(1) show ?thesis by (simp add: fileIdOf_def)
  qed
qed

section \<open>Joined paths\<close>

lemma UPLOAD_DIR_eval: "UPLOAD_DIR = js ''/usr/src/app/uploads''"
  by (simp add: UPLOAD_DIR_def dirname_def path_join_def normalize_path_def normalizeString_def
      js_def slash_def dot_def)

lemma ex_path_join: "path_join UPLOAD_DIR (js ''ab12.txt'') = ex_path"
  by (simp add: UPLOAD_DIR_eval ex_path_def path_join_def normalize_path_def normalizeString_def
      js_def slash_def dot_def)

text \<open>A doubled slash in the download path names the same file.\<close>

lemma ex_path_join_slash: "path_join UPLOAD_DIR (js ''/ab12.txt'') = ex_path"
  by (simp add: UPLOAD_DIR_eval ex_path_def path_join_def normalize_path_def normalizeString_def
      js_def slash_def dot_def)

section \<open>Reads of the dictionaries\<close>

lemma getProperty_Own [simp]:
  "map_of obj key = Some v \<Longrightarrow> getProperty marked obj key = Own v"
  by (simp add: getProperty_def)


lemma getProperty_None:
  "map_of obj key = None \<Longrightarrow> getProperty marked obj key = Inherited \<or> getProperty marked obj key = Missing"
  by (simp add: getProperty_def)

lemma getProperty_cases:
  obtains (own) v where "map_of obj key = Some v" "getProperty marked obj key = Own v"
  | (inherited) "map_of obj key = None" "getProperty marked obj key = Inherited"
  | (missing) "map_of obj key = None" "getProperty marked obj key = Missing"
proof (cases "map_of obj key")
  case None
  show ?thesis
  proof (cases "key \<in> set objectPrototype \<or> (marked \<and> key = js ''downloaded'')")
    case True
    with None show ?thesis by (intro inherited) (simp_all add: getProperty_def)
  next
    case False
    with None show ?thesis by (intro missing) (simp_all add: getProperty_def)
  qed
next
  case (Some v)
  then show ?thesis by (intro own) simp_all
qed

text \<open>The cookie values \<open>__proto__\<close> and \<open>constructor\<close> are taken for session ids.\<close>

lemma inherited_names:
  "map_of obj (js ''__proto__'') = None \<Longrightarrow> getProperty marked obj (js ''__proto__'') = Inherited"
  "map_of obj (js ''constructor'') = None \<Longrightarrow> getProperty marked obj (js ''constructor'') = Inherited"
  by (simp_all add: getProperty_def objectPrototype_def js_def)

lemma cookie_names_inherited_property:
  "getOrCreateSession \<lparr>fileDatabase = [], userSessions = [], disk = Map.empty, prototypeDownloaded = False\<rparr>
     (Some (js ''__proto__'')) newSessionId now
   = (js ''__proto__'',
      \<lparr>fileDatabase = [], userSessions = [], disk = Map.empty, prototypeDownloaded = False\<rparr>)"
  by (simp add: getOrCreateSession_def inherited_names) (simp add: js_def)

section \<open>The upload handler\<close>

lemma ex_boundaryMatch: "boundaryMatch ex_contentType = Some ex_boundary"
  by (simp add: ex_contentType_def ex_boundary_def js_def toLowerAscii_def quotedGroup_def
      quote_def semicolon_def)

lemma plain_ex_id: "plain_id (newFileId ex_env)"
  by (simp add: plain_id_def ex_env_def js_def dot_def slash_def)

lemma upload_stored:
  assumes "boundaryMatch ct = Some b"
    and "parseMultipartFormData buffer b = \<lparr>fileName = Some name, fileContent = Some content\<rparr>"
    and "name \<noteq> []" and "\<not> writeFails env"
  shows "disk (snd (upload st sid (Some ct) buffer env))
           (path_join UPLOAD_DIR (newFileId env @ extname name)) = Some content"
    and "map_of (fileDatabase (snd (upload st sid (Some ct) buffer env))) (newFileId env)
         = Some \<lparr>originalName = name, filename = newFileId env @ extname name,
                 size_f = length content, uploadTime = clockUpload env,
                 expiryTime = clockExpiry env + FILE_EXPIRY, downloaded = False,
                 sessionId = sid\<rparr>"
    and "map_of (userSessions st) sid = Some sess \<Longrightarrow>
         fst (upload st sid (Some ct) buffer env)
         = (200, Uploaded (newFileId env) (newFileId env @ extname name) (clockExpiry env + FILE_EXPIRY))"
    and "map_of (userSessions st) sid = Some sess \<Longrightarrow>
         map_of (userSessions (snd (upload st sid (Some ct) buffer env))) sid
         = Some (sess\<lparr>files := files sess @ [newFileId env]\<rparr>)"
    and "map_of (userSessions st) sid = None \<Longrightarrow>
         fst (upload st sid (Some ct) buffer env) = (500, Error ''File upload failed'')"
  using assms
  by (simp_all add: upload_def Let_def getProperty_def update_Some_unfold update_conv'
      split: option.splits)

lemma ex_extname: "extname (js ''b.txt'') = js ''.txt''"
  by (simp add: extname_def last_segment_def js_def dot_def slash_def Let_def)

lemma ex_name_nonempty: "js ''b.txt'' \<noteq> []"
  by (simp add: js_def)

lemma ex_taken_session:
  "map_of (userSessions ex_server_taken) ex_session = Some \<lparr>created = 0, files = []\<rparr>"
  by (simp add: ex_server_taken_def)

lemma ex_taken_record:
  "map_of (fileDatabase ex_server_taken) (newFileId ex_env) = Some ex_old_record"
  by (simp add: ex_server_taken_def ex_env_def)

lemma ex_not_writeFails: "\<not> writeFails ex_env"
  by (simp add: ex_env_def)

lemma ex_unique: "newFileId ex_env @ extname (js ''b.txt'') = js ''ab12.txt''"
  by (simp add: ex_env_def ex_extname) (simp add: js_def)

section \<open>Inserting under an id that is taken\<close>

text \<open>
  Claim C7, as amended. An upload whose generated file id already has a record does not
  fail: the answer is 200, the new record replaces the old one under that id, and the
  bytes are written under the storage key made of the id and the new extension. The
  handler makes no check of the id against the store.
\<close>

theorem upload_replaces_existing_record:
  assumes "map_of (fileDatabase st) (newFileId env) = Some old"
    and "boundaryMatch ct = Some b"
    and "parseMultipartFormData buffer b = \<lparr>fileName = Some name, fileContent = Some content\<rparr>"
    and "name \<noteq> []" and "\<not> writeFails env"
    and "map_of (userSessions st) sid = Some sess"
  shows "fst (upload st sid (Some ct) buffer env)
           = (200, Uploaded (newFileId env) (newFileId env @ extname name)
                     (clockExpiry env + FILE_EXPIRY)) \<and>
         map_of (fileDatabase (snd (upload st sid (Some ct) buffer env))) (newFileId env)
           = Some \<lparr>originalName = name, filename = newFileId env @ extname name,
                   size_f = length content, uploadTime = clockUpload env,
                   expiryTime = clockExpiry env + FILE_EXPIRY, downloaded = False,
                   sessionId = sid\<rparr> \<and>
         disk (snd (upload st sid (Some ct) buffer env))
           (path_join UPLOAD_DIR (newFileId env @ extname name)) = Some content"
  using upload_stored(1,2) [OF assms(2-5)] upload_stored(3) [OF assms(2-5) assms(6)]
  by simp

theorem upload_replaces_existing_record_witness:
  "map_of (fileDatabase ex_server_taken) (newFileId ex_env) = Some ex_old_record \<and>
   fst (fst (upload ex_server_taken ex_session (Some ex_contentType) ex_body ex_env)) = 200 \<and>
   map_of (fileDatabase (snd (upload ex_server_taken ex_session (Some ex_contentType) ex_body ex_env)))
     (newFileId ex_env)
     = Some \<lparr>originalName = js ''b.txt'', filename = newFileId ex_env @ extname (js ''b.txt''),
             size_f = length (Buffer_from (js ''hi'')), uploadTime = clockUpload ex_env,
             expiryTime = clockExpiry ex_env + FILE_EXPIRY, downloaded = False,
             sessionId = ex_session\<rparr>"
  using upload_replaces_existing_record [OF ex_taken_record ex_boundaryMatch ex_parse
      ex_name_nonempty ex_not_writeFails ex_taken_session]
    ex_taken_record
  by simp

text \<open>
  Claim C7, as stated, fails: in \<open>ex_server_taken\<close> the id \<open>ab12\<close> belongs to a record of
  session \<open>s0\<close> with bytes \<open>old\<close>; an upload of session \<open>s1\<close> that draws the same id
  is answered 200, the record is replaced and the bytes are overwritten.
\<close>

theorem upload_overwrites_on_id_collision:
  "map_of (fileDatabase ex_server_taken) (js ''ab12'') = Some ex_old_record \<and>
   disk ex_server_taken (js ''/usr/src/app/uploads/ab12.txt'') = Some (Buffer_from (js ''old'')) \<and>
   newFileId ex_env = js ''ab12'' \<and>
   fst (upload ex_server_taken ex_session (Some ex_contentType) ex_body ex_env)
     = (200, Uploaded (js ''ab12'') (js ''ab12.txt'') (1001 + FILE_EXPIRY)) \<and>
   map_of (fileDatabase (snd (upload ex_server_taken ex_session (Some ex_contentType) ex_body ex_env)))
     (js ''ab12'') \<noteq> Some ex_old_record \<and>
   disk (snd (upload ex_server_taken ex_session (Some ex_contentType) ex_body ex_env))
     (js ''/usr/src/app/uploads/ab12.txt'') = Some (Buffer_from (js ''hi''))"
proof -
  let ?r = "upload ex_server_taken ex_session (Some ex_contentType) ex_body ex_env"
  note u = upload_stored [OF ex_boundaryMatch ex_parse ex_name_nonempty ex_not_writeFails,
      of ex_server_taken ex_session]
  have id: "newFileId ex_env = js ''ab12''" by (simp add: ex_env_def)
  have c: "clockExpiry ex_env = 1001" by (simp add: ex_env_def)
  have p: "path_join UPLOAD_DIR (js ''ab12.txt'') = js ''/usr/src/app/uploads/ab12.txt''"
    using ex_path_join by (simp add: ex_path_def)
  have d: "disk ex_server_taken (js ''/usr/src/app/uploads/ab12.txt'') = Some (Buffer_from (js ''old''))"
    by (simp add: ex_server_taken_def ex_path_def)
  have n: "map_of (fileDatabase (snd ?r)) (js ''ab12'') \<noteq> Some ex_old_record"
    using u(2) by (simp add: id ex_old_record_def js_def)
  have k: "js ''ab12'' @ js ''.txt'' = js ''ab12.txt''" by (simp add: js_def)
  have r: "fst ?r = (200, Uploaded (js ''ab12'') (js ''ab12.txt'') (1001 + FILE_EXPIRY))"
    using u(3) [OF ex_taken_session] by (simp add: id c ex_extname k)
  have w: "disk (snd ?r) (js ''/usr/src/app/uploads/ab12.txt'') = Some (Buffer_from (js ''hi''))"
    using u(1) by (simp add: id ex_extname k p)
  have m: "map_of (fileDatabase ex_server_taken) (js ''ab12'') = Some ex_old_record"
    by (simp add: ex_server_taken_def)
  from m d id r n w show ?thesis by blast
qed

section \<open>Uploads through the binary-safe extractor\<close>

lemma boundaryMatch_includes:
  "boundaryMatch ct = Some b \<Longrightarrow> includes_buf (map toLowerAscii ct) (js ''boundary='')"
proof (induction ct)
  case Nil
  then show ?case by simp
next
  case (Cons c cs)
  show ?case
  proof (cases "map toLowerAscii (take 9 (c # cs)) = js ''boundary=''")
    case True
    have "prefix (map toLowerAscii (take 9 (c # cs))) (map toLowerAscii (c # cs))"
      by (metis take_is_prefix take_map)
    with True have "prefix (js ''boundary='') (map toLowerAscii (c # cs))" by simp
    then show ?thesis by (simp add: includes_buf_def indexOf_def)
  next
    case False
    with Cons.prems have "boundaryMatch cs = Some b" by simp
    from Cons.IH [OF this] show ?thesis
      by (auto simp: includes_buf_def indexOf_def)
  qed
qed

lemma upload_no_boundary:
  assumes "case contentTypeHeader of
             None \<Rightarrow> True
           | Some ct \<Rightarrow> \<not> includes_buf (map toLowerAscii ct) (js ''boundary='')"
  shows "upload st sid contentTypeHeader buffer env
         = ((400, Error ''Invalid content type or missing boundary''), st)"
proof -
  have "boundaryMatch (case contentTypeHeader of None \<Rightarrow> [] | Some c \<Rightarrow> c) = None"
  proof (cases contentTypeHeader)
    case None
    then show ?thesis by simp
  next
    case (Some ct)
    with assms have "\<not> includes_buf (map toLowerAscii ct) (js ''boundary='')" by simp
    with boundaryMatch_includes [of ct] Some show ?thesis by (cases "boundaryMatch ct") auto
  qed
  then show ?thesis by (simp add: upload_def)
qed

lemma filenameMatch_nonempty: "filenameMatch s = Some name \<Longrightarrow> name \<noteq> []"
  by (induction s) (auto simp: Let_def split: if_splits)

lemma find_skip:
  assumes "\<forall>p\<in>set ps. \<not> P p" "P q"
  shows "find P (ps @ q # qs) = Some q"
  using assms by (induction ps) auto

lemma parse_file_part:
  assumes "well_formed b pre (ps @ filePart headers content # qs) epi"
    and "\<forall>p\<in>set ps. \<not> qualifies p"
    and "file_headers headers name"
  shows "parseMultipartFormData (multipart b pre (ps @ filePart headers content # qs) epi) b
         = \<lparr>fileName = Some name, fileContent = Some content\<rparr>"
proof -
  have "find qualifies (ps @ filePart headers content # qs) = Some (filePart headers content)"
    using find_skip [OF assms(2) honored_filePart(1) [OF assms(3)]] .
  with partsOf_multipart [OF assms(1)] honored_filePart(2) [OF assms(3)]
  show ?thesis by (simp add: parse_firstQualifying firstQualifying_def)
qed

section \<open>The download handler\<close>

lemma valid_contentDisposition:
  "list_all validHeaderChar (contentDisposition n) \<longleftrightarrow> list_all validHeaderChar n"
  by (simp add: contentDisposition_def validHeaderChar_def js_def quote_def)

lemma downloadStart_found:
  assumes "disk st (path_join UPLOAD_DIR name) = Some bytes"
    and "map_of (fileDatabase st) (fileIdOf name) = Some metadata"
    and "list_all validHeaderChar (originalName metadata)"
  shows "downloadStart st name
         = Some ((200, Attachment (originalName metadata) bytes),
                 st\<lparr>fileDatabase := AList.update (fileIdOf name) (metadata\<lparr>downloaded := True\<rparr>)
                       (fileDatabase st)\<rparr>)"
  using assms by (simp add: downloadStart_def Let_def valid_contentDisposition)

lemma downloadStart_uncaught:
  assumes "disk st (path_join UPLOAD_DIR name) = Some bytes"
    and "map_of (fileDatabase st) (fileIdOf name) = Some metadata"
    and "\<not> list_all validHeaderChar (originalName metadata)"
  shows "downloadStart st name = None"
  using assms by (simp add: downloadStart_def Let_def valid_contentDisposition)


text \<open>
  What a 200 answer tells: the bytes were on disk and the lookup of the file id was
  truthy; the store afterwards differs from the one before in the mark alone.
\<close>

lemma downloadStart_200:
  assumes "downloadStart st name = Some ((200, b), st')"
  obtains bytes where "disk st (path_join UPLOAD_DIR name) = Some bytes"
    and "disk st' = disk st" and "userSessions st' = userSessions st"
    and "prototypeDownloaded st \<longrightarrow> prototypeDownloaded st'"
    and "(\<exists>metadata. map_of (fileDatabase st) (fileIdOf name) = Some metadata \<and>
            list_all validHeaderChar (originalName metadata) \<and>
            b = Attachment (originalName metadata) bytes \<and>
            prototypeDownloaded st' = prototypeDownloaded st \<and>
            fileDatabase st' = AList.update (fileIdOf name) (metadata\<lparr>downloaded := True\<rparr>)
                                 (fileDatabase st)) \<or>
         (map_of (fileDatabase st) (fileIdOf name) = None \<and>
            getProperty (prototypeDownloaded st) (fileDatabase st) (fileIdOf name) = Inherited \<and>
            b = Attachment (js ''undefined'') bytes \<and>
            fileDatabase st' = fileDatabase st)"
proof (cases "disk st (path_join UPLOAD_DIR name)")
  case None
  with assms show ?thesis by (simp add: downloadStart_def Let_def)
next
  case (Some bytes)
  show ?thesis
  proof (cases rule: getProperty_cases [of "fileDatabase st" "fileIdOf name" "prototypeDownloaded st"])
    case (own metadata)
    with Some assms have v: "list_all validHeaderChar (originalName metadata)"
      by (simp add: downloadStart_def Let_def valid_contentDisposition split: if_splits)
    from downloadStart_found [OF Some own(1) v] assms own(1) v Some show ?thesis
      by (intro that [of bytes]) auto
  next
    case inherited
    with Some assms show ?thesis
      by (intro that [of bytes]) (auto simp: downloadStart_def Let_def split: if_splits)
  next
    case missing
    with Some assms show ?thesis by (simp add: downloadStart_def Let_def)
  qed
qed

lemma unlinkSync_ok:
  "d p = Some bytes \<Longrightarrow> \<not> fails p \<Longrightarrow> unlinkSync fails p d = Inr (d(p := None))"
  by (simp add: unlinkSync_def)




text \<open>
  A record whose session id names an inherited property stays in the store when its
  download completes, although the bytes are deleted.
\<close>

lemma downloadFinish_inherited_session:
  assumes "disk st (path_join UPLOAD_DIR name) = Some bytes"
    and "\<not> fails (path_join UPLOAD_DIR name)"
    and "map_of (fileDatabase st) (fileIdOf name) = Some metadata"
    and "sessionId metadata \<noteq> []"
    and "getProperty (prototypeDownloaded st) (userSessions st) (sessionId metadata) = Inherited"
  shows "downloadFinish st name fails
         = ([DeleteError name], st\<lparr>disk := (disk st)(path_join UPLOAD_DIR name := None)\<rparr>)"
  using assms unlinkSync_ok [where fails = fails and d = "disk st", OF assms(1,2)]
  by (simp add: downloadFinish_def Let_def)

section \<open>Upload followed by download\<close>

text \<open>
  An upload of a well-formed body followed by the download handler on the storage key
  of the answer. The handler takes the path as the URL parser gives it, percent-encoded:
  the key of a file reaches it unchanged when its extension has only characters that a
  path does not escape.
\<close>

lemma upload_then_download:
  assumes "boundaryMatch ct = Some b"
    and "well_formed b pre (ps @ filePart headers content # qs) epi"
    and "\<forall>p\<in>set ps. \<not> qualifies p"
    and "file_headers headers name"
    and "\<not> writeFails env" and "plain_id (newFileId env)"
    and "map_of (userSessions st) sid = Some sess"
    and "list_all validHeaderChar name"
  shows "fst (upload st sid (Some ct) (multipart b pre (ps @ filePart headers content # qs) epi) env)
           = (200, Uploaded (newFileId env) (newFileId env @ extname name)
                     (clockExpiry env + FILE_EXPIRY))"
    and "map_option fst (downloadStart
            (snd (upload st sid (Some ct) (multipart b pre (ps @ filePart headers content # qs) epi) env))
            (newFileId env @ extname name))
           = Some (200, Attachment name content)"
proof -
  let ?body = "multipart b pre (ps @ filePart headers content # qs) epi"
  let ?st = "snd (upload st sid (Some ct) ?body env)"
  let ?key = "newFileId env @ extname name"
  have p: "parseMultipartFormData ?body b = \<lparr>fileName = Some name, fileContent = Some content\<rparr>"
    by (rule parse_file_part [OF assms(2,3,4)])
  have ne: "name \<noteq> []" using assms(4) filenameMatch_nonempty by (auto simp: file_headers_def)
  note u = upload_stored [OF assms(1) p ne assms(5), of st sid]
  show "fst (upload st sid (Some ct) ?body env)
           = (200, Uploaded (newFileId env) ?key (clockExpiry env + FILE_EXPIRY))"
    by (rule u(3) [OF assms(7)])
  have f: "fileIdOf ?key = newFileId env" by (rule fileIdOf_plain [OF assms(6)])
  have m: "map_of (fileDatabase ?st) (fileIdOf ?key)
        = Some \<lparr>originalName = name, filename = ?key, size_f = length content,
                uploadTime = clockUpload env, expiryTime = clockExpiry env + FILE_EXPIRY,
                downloaded = False, sessionId = sid\<rparr>"
    using u(2) f by simp
  from downloadStart_found [OF u(1) m] assms(8)
  show "map_option fst (downloadStart ?st ?key) = Some (200, Attachment name content)"
    by simp
qed

text \<open>
  The original name of an upload goes into a response header of its download as it
  is. When it has a character that no header may carry, the download handler ends in
  an uncaught exception; the record and the bytes stay.
\<close>

lemma download_of_unsendable_name:
  assumes "boundaryMatch ct = Some b"
    and "parseMultipartFormData buffer b = \<lparr>fileName = Some name, fileContent = Some content\<rparr>"
    and "name \<noteq> []" and "\<not> writeFails env" and "plain_id (newFileId env)"
    and "\<not> list_all validHeaderChar name"
  shows "downloadStart (snd (upload st sid (Some ct) buffer env)) (newFileId env @ extname name) = None"
proof -
  note u = upload_stored [OF assms(1-4), of st sid]
  have f: "fileIdOf (newFileId env @ extname name) = newFileId env"
    by (rule fileIdOf_plain [OF assms(5)])
  from u(2) f have m: "map_of (fileDatabase (snd (upload st sid (Some ct) buffer env)))
      (fileIdOf (newFileId env @ extname name))
      = Some \<lparr>originalName = name, filename = newFileId env @ extname name, size_f = length content,
              uploadTime = clockUpload env, expiryTime = clockExpiry env + FILE_EXPIRY,
              downloaded = False, sessionId = sid\<rparr>"
    by simp
  from downloadStart_uncaught [OF u(1) m] assms(6) show ?thesis by simp
qed

section \<open>A link serves once\<close>

lemma ex_fileIdOf: "fileIdOf (js ''ab12.txt'') = js ''ab12''"
proof -
  have i: "newFileId ex_env = js ''ab12''" by (simp add: ex_env_def)
  have k: "js ''ab12'' @ js ''.txt'' = js ''ab12.txt''" by (simp add: js_def)
  from fileIdOf_plain [OF plain_ex_id, of "js ''b.txt''"] show ?thesis
    by (simp only: i ex_extname k)
qed

lemma ex_taken_disk: "disk ex_server_taken (path_join UPLOAD_DIR (js ''ab12.txt'')) = Some (Buffer_from (js ''old''))"
  by (simp add: ex_path_join ex_server_taken_def)

lemma ex_taken_lookup: "map_of (fileDatabase ex_server_taken) (fileIdOf (js ''ab12.txt'')) = Some ex_old_record"
  by (simp add: ex_fileIdOf ex_server_taken_def)

lemma ex_old_name: "list_all validHeaderChar (originalName ex_old_record)"
  by (simp add: ex_old_record_def validHeaderChar_def js_def)







text \<open>
  Apart from the refused deletion: a client that sends the cookie \<open>sessionId=__proto__\<close>
  uploads under that session id (the answer is 500, the record and the bytes are
  stored). When a download of the file completes, the bytes are deleted and the
  detaching throws, so the record stays in \<open>fileDatabase\<close>; later requests for the
  link are still answered 404, for want of the bytes.
\<close>

lemma record_of_inherited_session_survives_download:
  assumes "map_of (fileDatabase st) (fileIdOf name) = Some metadata"
    and "sessionId metadata = js ''__proto__''"
    and "map_of (userSessions st) (js ''__proto__'') = None"
    and "downloadStart st name = Some ((200, b), st1)"
    and "\<not> fails (path_join UPLOAD_DIR name)"
  shows "fst (downloadFinish st1 name fails) = [DeleteError name]"
    and "map_of (fileDatabase (snd (downloadFinish st1 name fails))) (fileIdOf name)
         = Some (metadata\<lparr>downloaded := True\<rparr>)"
    and "disk (snd (downloadFinish st1 name fails)) (path_join UPLOAD_DIR name) = None"
proof -
  let ?p = "path_join UPLOAD_DIR name"
  let ?fid = "fileIdOf name"
  from assms(4) obtain bytes where d: "disk st ?p = Some bytes"
    and d1: "disk st1 = disk st" and u1: "userSessions st1 = userSessions st"
    and k1: "prototypeDownloaded st \<longrightarrow> prototypeDownloaded st1"
    and c: "(\<exists>metadata. map_of (fileDatabase st) ?fid = Some metadata \<and>
            list_all validHeaderChar (originalName metadata) \<and>
            b = Attachment (originalName metadata) bytes \<and>
            prototypeDownloaded st1 = prototypeDownloaded st \<and>
            fileDatabase st1 = AList.update ?fid (metadata\<lparr>downloaded := True\<rparr>) (fileDatabase st)) \<or>
         (map_of (fileDatabase st) ?fid = None \<and>
            getProperty (prototypeDownloaded st) (fileDatabase st) ?fid = Inherited \<and>
            b = Attachment (js ''undefined'') bytes \<and>
            fileDatabase st1 = fileDatabase st)"
    by (rule downloadStart_200)
  from c assms(1)
  have f1: "fileDatabase st1 = AList.update ?fid (metadata\<lparr>downloaded := True\<rparr>) (fileDatabase st)"
    by auto
  have m1: "map_of (fileDatabase st1) ?fid = Some (metadata\<lparr>downloaded := True\<rparr>)"
    using f1 by (simp add: update_Some_unfold)
  have e1: "disk st1 ?p = Some bytes" using d d1 by simp
  have n: "sessionId (metadata\<lparr>downloaded := True\<rparr>) \<noteq> []"
    using assms(2) by (simp add: js_def)
  have i: "getProperty (prototypeDownloaded st1) (userSessions st1)
             (sessionId (metadata\<lparr>downloaded := True\<rparr>)) = Inherited"
    using assms(2,3) u1 by (simp add: inherited_names)
  note r = downloadFinish_inherited_session [where fails = fails, OF e1 assms(5) m1 n i]
  show "fst (downloadFinish st1 name fails) = [DeleteError name]" using r by simp
  show "map_of (fileDatabase (snd (downloadFinish st1 name fails))) ?fid
         = Some (metadata\<lparr>downloaded := True\<rparr>)" using r m1 by simp
  show "disk (snd (downloadFinish st1 name fails)) ?p = None" using r by simp
qed

section \<open>The sweep, step by step\<close>


lemma detach_fileDatabase [simp]: "fileDatabase (detach sid fid st) = fileDatabase st"
  by (simp add: detach_def split: option.splits)

lemma detach_disk [simp]: "disk (detach sid fid st) = disk st"
  by (simp add: detach_def split: option.splits)

lemma detach_prototypeDownloaded [simp]:
  "prototypeDownloaded (detach sid fid st) = prototypeDownloaded st"
  by (simp add: detach_def split: option.splits)

lemma detach_keys [simp]: "map fst (userSessions (detach sid fid st)) = map fst (userSessions st)"
proof (cases "map_of (userSessions st) sid")
  case None
  then show ?thesis by (simp add: detach_def)
next
  case (Some sess)
  then have "sid \<in> fst ` set (userSessions st)" by (metis map_of_eq_None_iff option.distinct(1))
  then show ?thesis using Some by (simp add: detach_def update_keys)
qed

lemma detach_map_of:
  "map_of (userSessions (detach sid0 fid st)) sid =
     (if sid = sid0 \<and> sid0 \<noteq> []
      then map_option (\<lambda>sess. sess\<lparr>files := filter (\<lambda>i. i \<noteq> fid) (files sess)\<rparr>)
             (map_of (userSessions st) sid)
      else map_of (userSessions st) sid)"
  by (auto simp: detach_def update_conv' split: option.splits)

text \<open>
  One round of the file sweep: the store after it, and what it logs.
\<close>

lemma sweepFile_snd:
  "snd (sweepFile now fails (fid, m) (lg, s)) =
     (if sweepable now fails s m then
        detach (sessionId m) fid
          (s\<lparr>disk := (disk s)(path_join UPLOAD_DIR (filename m) := None),
             fileDatabase := AList.delete fid (fileDatabase s)\<rparr>)
      else s)"
proof (cases "now > expiryTime m")
  case False
  then show ?thesis by (simp add: sweepFile_def sweepable_def)
next
  case True
  let ?p = "path_join UPLOAD_DIR (filename m)"
  show ?thesis
  proof (cases "undeletable s fails m")
    case u: True
    then have "(if existsSync (disk s) ?p then unlinkSync fails ?p (disk s) else Inr (disk s))
               = Inl EACCES"
      by (auto simp: undeletable_def existsSync_def unlinkSync_def)
    with True u show ?thesis by (simp add: sweepFile_def sweepable_def Let_def)
  next
    case u: False
    then have e: "(if existsSync (disk s) ?p then unlinkSync fails ?p (disk s) else Inr (disk s))
               = Inr ((disk s)(?p := None))"
      by (auto simp: undeletable_def existsSync_def unlinkSync_def)
    show ?thesis
    proof (cases rule: getProperty_cases [of "userSessions s" "sessionId m" "prototypeDownloaded s"])
      case (own sess)
      with True u e show ?thesis
        by (simp add: sweepFile_def sweepable_def Let_def detach_def)
    next
      case inherited
      with True u e show ?thesis
        by (simp add: sweepFile_def sweepable_def Let_def detach_def)
    next
      case missing
      with True u e show ?thesis
        by (simp add: sweepFile_def sweepable_def Let_def detach_def)
    qed
  qed
qed

lemma sweepFile_fst:
  "fst (sweepFile now fails (fid, m) (lg, s)) =
     lg @ (if now > expiryTime m then
             (if undeletable s fails m then [DeleteError (filename m)]
              else Deleted (filename m) #
                   (if sessionId m \<noteq> [] \<and>
                       getProperty (prototypeDownloaded s) (userSessions s) (sessionId m) = Inherited
                    then [DeleteError (filename m)] else []))
           else [])"
proof (cases "now > expiryTime m")
  case False
  then show ?thesis by (simp add: sweepFile_def)
next
  case True
  let ?p = "path_join UPLOAD_DIR (filename m)"
  show ?thesis
  proof (cases "undeletable s fails m")
    case u: True
    then have "(if existsSync (disk s) ?p then unlinkSync fails ?p (disk s) else Inr (disk s))
               = Inl EACCES"
      by (auto simp: undeletable_def existsSync_def unlinkSync_def)
    with True u show ?thesis by (simp add: sweepFile_def Let_def)
  next
    case u: False
    then have e: "(if existsSync (disk s) ?p then unlinkSync fails ?p (disk s) else Inr (disk s))
               = Inr ((disk s)(?p := None))"
      by (auto simp: undeletable_def existsSync_def unlinkSync_def)
    show ?thesis
    proof (cases rule: getProperty_cases [of "userSessions s" "sessionId m" "prototypeDownloaded s"])
      case (own sess)
      with True u e show ?thesis by (simp add: sweepFile_def Let_def)
    next
      case inherited
      with True u e show ?thesis by (simp add: sweepFile_def Let_def)
    next
      case missing
      with True u e show ?thesis by (simp add: sweepFile_def Let_def)
    qed
  qed
qed







lemma sweepSession_step:
  "sweepSession now e (lg, s) =
     (if now - created (snd e) > SESSION_MAX_AGE \<and> files (snd e) = []
      then (lg @ [SessionDeleted (fst e)], s\<lparr>userSessions := AList.delete (fst e) (userSessions s)\<rparr>)
      else (lg, s))"
  by (simp add: sweepSession_def Let_def)


lemma sweepSessions_log_grows:
  "set lg \<subseteq> set (fst (fold (sweepSession now) es (lg, s)))"
proof (induction es arbitrary: lg s)
  case Nil
  show ?case by simp
next
  case (Cons e es)
  show ?case
  proof (cases "now - created (snd e) > SESSION_MAX_AGE \<and> files (snd e) = []")
    case True
    with Cons [of "lg @ [SessionDeleted (fst e)]"] show ?thesis
      by (auto simp: sweepSession_step)
  next
    case False
    with Cons [of lg] show ?thesis by (auto simp: sweepSession_step)
  qed
qed




section \<open>One sweep cycle\<close>





section \<open>The session reset, step by step\<close>

lemma resetFile_snd:
  "snd (resetFile fails i (lg, s)) =
     (case map_of (fileDatabase s) i of
        None \<Rightarrow> s
      | Some m \<Rightarrow>
          if undeletable s fails m then s
          else s\<lparr>disk := (disk s)(path_join UPLOAD_DIR (filename m) := None),
                 fileDatabase := AList.delete i (fileDatabase s)\<rparr>)"
proof (cases "map_of (fileDatabase s) i")
  case None
  then show ?thesis by (simp add: resetFile_def)
next
  case (Some m)
  let ?p = "path_join UPLOAD_DIR (filename m)"
  show ?thesis
  proof (cases "disk s ?p")
    case None
    then have "(disk s)(?p := None) = disk s" by (rule fun_upd_idem)
    with None Some show ?thesis
      by (simp add: resetFile_def Let_def existsSync_def undeletable_def)
  next
    case d: (Some bytes)
    with Some show ?thesis
      by (simp add: resetFile_def Let_def existsSync_def unlinkSync_def undeletable_def)
  qed
qed

lemma resetFile_fst:
  "fst (resetFile fails i (lg, s)) =
     lg @ (case map_of (fileDatabase s) i of
             None \<Rightarrow> []
           | Some m \<Rightarrow> if undeletable s fails m then [DeleteError i] else [])"
proof (cases "map_of (fileDatabase s) i")
  case None
  then show ?thesis by (simp add: resetFile_def)
next
  case (Some m)
  then show ?thesis
    by (cases "disk s (path_join UPLOAD_DIR (filename m))")
       (simp_all add: resetFile_def Let_def existsSync_def unlinkSync_def undeletable_def)
qed









section \<open>A failed physical deletion\<close>






lemma ex_taken_fields:
  "fileDatabase ex_server_taken = [(js ''ab12'', ex_old_record)]"
  "userSessions ex_server_taken = [(ex_session, \<lparr>created = 0, files = []\<rparr>),
                                   (js ''s0'', \<lparr>created = 0, files = [js ''ab12'']\<rparr>)]"
  "disk ex_server_taken = [ex_path \<mapsto> Buffer_from (js ''old'')]"
  "prototypeDownloaded ex_server_taken = False"
  by (simp_all add: ex_server_taken_def)



lemma ex_taken_s0:
  "map_of (userSessions ex_server_taken) (js ''s0'') = Some \<lparr>created = 0, files = [js ''ab12'']\<rparr>"
  by (simp add: ex_taken_fields ex_session_def js_def)




section \<open>Reachable stores keep files with their sessions\<close>

lemma shrinks_refl: "shrinks st st"
  by (simp add: shrinks_def)

lemma shrinksD_session:
  "shrinks st st' \<Longrightarrow> map_of (userSessions st') sid = Some sess'
   \<Longrightarrow> \<exists>sess. map_of (userSessions st) sid = Some sess \<and> set (files sess') \<subseteq> set (files sess)"
  by (simp add: shrinks_def)

lemma shrinksD_file:
  "shrinks st st' \<Longrightarrow> map_of (fileDatabase st') fid = Some m'
   \<Longrightarrow> \<exists>m. map_of (fileDatabase st) fid = Some m \<and> sessionId m' = sessionId m"
  by (simp add: shrinks_def)

lemma shrinks_trans:
  assumes "shrinks a b" "shrinks b c"
  shows "shrinks a c"
  unfolding shrinks_def
proof (intro conjI allI impI)
  fix sid sess'
  assume "map_of (userSessions c) sid = Some sess'"
  from shrinksD_session [OF assms(2) this] obtain s1 where
    s1: "map_of (userSessions b) sid = Some s1" "set (files sess') \<subseteq> set (files s1)" by blast
  from shrinksD_session [OF assms(1) s1(1)] obtain s0 where
    s0: "map_of (userSessions a) sid = Some s0" "set (files s1) \<subseteq> set (files s0)" by blast
  from s1(2) s0 show "\<exists>sess. map_of (userSessions a) sid = Some sess \<and> set (files sess') \<subseteq> set (files sess)"
    by blast
next
  fix fid m'
  assume "map_of (fileDatabase c) fid = Some m'"
  from shrinksD_file [OF assms(2) this] obtain m1 where
    m1: "map_of (fileDatabase b) fid = Some m1" "sessionId m' = sessionId m1" by blast
  from shrinksD_file [OF assms(1) m1(1)] obtain m0 where
    "map_of (fileDatabase a) fid = Some m0" "sessionId m1 = sessionId m0" by blast
  with m1(2) show "\<exists>m. map_of (fileDatabase a) fid = Some m \<and> sessionId m' = sessionId m"
    by simp
qed

lemma attributed_shrinks:
  assumes "attributed st up" "shrinks st st'"
  shows "attributed st' up"
  unfolding attributed_def
proof (intro conjI allI impI)
  fix sid sess fid
  assume a: "map_of (userSessions st') sid = Some sess \<and> fid \<in> set (files sess)"
  from shrinksD_session [OF assms(2)] a obtain s0 where
    "map_of (userSessions st) sid = Some s0" "fid \<in> set (files s0)" by blast
  with assms(1) show "up fid = Some sid" unfolding attributed_def by blast
next
  fix fid m
  assume "map_of (fileDatabase st') fid = Some m"
  from shrinksD_file [OF assms(2) this] obtain m0 where
    "map_of (fileDatabase st) fid = Some m0" "sessionId m = sessionId m0" by blast
  with assms(1) show "up fid = Some (sessionId m)" unfolding attributed_def by simp
qed

lemma shrinks_detach: "shrinks st (detach sid fid st)"
  by (auto simp: shrinks_def detach_map_of)

lemma shrinks_delete_file:
  "userSessions st' = userSessions st \<Longrightarrow> fileDatabase st' = AList.delete fid (fileDatabase st)
   \<Longrightarrow> shrinks st st'"
  by (auto simp: shrinks_def delete_conv' split: if_splits)

lemma shrinks_delete_session:
  "fileDatabase st' = fileDatabase st \<Longrightarrow> userSessions st' = AList.delete sid (userSessions st)
   \<Longrightarrow> shrinks st st'"
  by (auto simp: shrinks_def delete_conv' split: if_splits)

lemma shrinks_same:
  "fileDatabase st' = fileDatabase st \<Longrightarrow> userSessions st' = userSessions st \<Longrightarrow> shrinks st st'"
  by (simp add: shrinks_def)

lemma shrinks_fold:
  assumes "\<And>x acc. shrinks (snd acc) (snd (f x acc))"
  shows "shrinks (snd acc) (snd (fold f xs acc))"
proof (induction xs arbitrary: acc)
  case Nil
  show ?case by (simp add: shrinks_refl)
next
  case (Cons x xs)
  have "shrinks (snd acc) (snd (f x acc))" by (rule assms)
  moreover have "shrinks (snd (f x acc)) (snd (fold f xs (f x acc)))" by (rule Cons)
  ultimately show ?case by (simp add: shrinks_trans)
qed

lemma shrinks_fields:
  "shrinks a b \<Longrightarrow> fileDatabase c = fileDatabase b \<Longrightarrow> userSessions c = userSessions b
   \<Longrightarrow> shrinks a c"
  by (simp add: shrinks_def)

lemma shrinks_cut_detach:
  "shrinks st (detach sid fid (st\<lparr>fileDatabase := AList.delete fid (fileDatabase st)\<rparr>))"
proof -
  have "shrinks st (st\<lparr>fileDatabase := AList.delete fid (fileDatabase st)\<rparr>)"
    by (rule shrinks_delete_file) simp_all
  then show ?thesis using shrinks_detach shrinks_trans by blast
qed

lemma shrinks_sweepFile: "shrinks (snd acc) (snd (sweepFile now fails e acc))"
proof -
  obtain fid m where e: "e = (fid, m)" by (cases e)
  obtain lg s where acc: "acc = (lg, s)" by (cases acc)
  let ?D = "detach (sessionId m) fid (s\<lparr>fileDatabase := AList.delete fid (fileDatabase s)\<rparr>)"
  let ?R = "snd (sweepFile now fails (fid, m) (lg, s))"
  have "(fileDatabase ?R = fileDatabase s \<and> userSessions ?R = userSessions s) \<or>
        (fileDatabase ?R = fileDatabase ?D \<and> userSessions ?R = userSessions ?D)"
    by (simp add: sweepFile_snd detach_def split: option.splits)
  then have "shrinks s ?R"
    using shrinks_fields [OF shrinks_refl] shrinks_fields [OF shrinks_cut_detach] by blast
  then show ?thesis by (simp add: e acc)
qed

lemma shrinks_sweepSession: "shrinks (snd acc) (snd (sweepSession now e acc))"
  by (auto simp: sweepSession_def Let_def shrinks_refl intro: shrinks_delete_session)

lemma shrinks_resetFile: "shrinks (snd acc) (snd (resetFile fails fileId acc))"
proof -
  obtain lg s where acc: "acc = (lg, s)" by (cases acc)
  have "shrinks s (snd (resetFile fails fileId (lg, s)))"
    by (auto simp: resetFile_snd shrinks_refl split: option.splits intro: shrinks_delete_file)
  then show ?thesis by (simp add: acc)
qed

lemma shrinks_sweep: "shrinks st (snd (sweep now fails st))"
proof -
  have a: "shrinks st (snd (sweepFiles now fails st))"
    using shrinks_fold [of "sweepFile now fails" "([], st)", OF shrinks_sweepFile]
    by (simp add: sweepFiles_def)
  have "shrinks (snd (sweepFiles now fails st)) (snd (sweepSessions now (snd (sweepFiles now fails st))))"
    using shrinks_fold [of "sweepSession now" "([], snd (sweepFiles now fails st))",
        OF shrinks_sweepSession]
    by (simp add: sweepSessions_def)
  with a show ?thesis by (auto simp: sweep_def Let_def intro: shrinks_trans)
qed

lemma shrinks_downloadStart:
  assumes "downloadStart st name = Some (answer, st')"
  shows "shrinks st st'"
proof (cases rule: getProperty_cases [of "fileDatabase st" "fileIdOf name" "prototypeDownloaded st"])
  case (own metadata)
  with assms have "st' = st \<or>
      st' = st\<lparr>fileDatabase := AList.update (fileIdOf name) (metadata\<lparr>downloaded := True\<rparr>)
                   (fileDatabase st)\<rparr>"
    by (auto simp: downloadStart_def Let_def split: option.splits if_splits)
  with own(1) show ?thesis
    by (auto simp: shrinks_def update_conv' split: if_splits)
next
  case inherited
  with assms have "fileDatabase st' = fileDatabase st \<and> userSessions st' = userSessions st"
    by (auto simp: downloadStart_def Let_def split: option.splits if_splits)
  then show ?thesis by (simp add: shrinks_same)
next
  case missing
  with assms have "st' = st"
    by (auto simp: downloadStart_def Let_def split: option.splits)
  then show ?thesis by (simp add: shrinks_refl)
qed

lemma shrinks_downloadFinish: "shrinks st (snd (downloadFinish st name fails))"
proof -
  let ?fid = "fileIdOf name"
  let ?R = "snd (downloadFinish st name fails)"
  let ?D = "\<lambda>sid. (detach sid ?fid st)
             \<lparr>fileDatabase := AList.delete ?fid (fileDatabase (detach sid ?fid st))\<rparr>"
  have c: "shrinks st (?D sid)" for sid
  proof -
    have "shrinks (detach sid ?fid st) (?D sid)" by (rule shrinks_delete_file) simp_all
    with shrinks_detach show ?thesis using shrinks_trans by blast
  qed
  have k: "shrinks st (st\<lparr>fileDatabase := AList.delete ?fid (fileDatabase st)\<rparr>)"
    by (rule shrinks_delete_file) simp_all
  show ?thesis
  proof (cases "unlinkSync fails (path_join UPLOAD_DIR name) (disk st)")
    case (Inl err)
    then have "?R = st" by (simp add: downloadFinish_def Let_def)
    then show ?thesis by (simp add: shrinks_refl)
  next
    case (Inr d)
    show ?thesis
    proof (cases rule: getProperty_cases [of "fileDatabase st" ?fid "prototypeDownloaded st"])
      case inherited
      with Inr have "fileDatabase ?R = fileDatabase st \<and> userSessions ?R = userSessions st"
        by (simp add: downloadFinish_def Let_def)
      then show ?thesis using shrinks_fields [OF shrinks_refl] by blast
    next
      case missing
      with Inr have "fileDatabase ?R = fileDatabase st \<and> userSessions ?R = userSessions st"
        by (simp add: downloadFinish_def Let_def)
      then show ?thesis using shrinks_fields [OF shrinks_refl] by blast
    next
      case (own m)
      show ?thesis
      proof (cases "sessionId m = []")
        case True
        with Inr own have "fileDatabase ?R = AList.delete ?fid (fileDatabase st) \<and>
                           userSessions ?R = userSessions st"
          by (simp add: downloadFinish_def Let_def)
        then show ?thesis using shrinks_fields [OF k] by simp
      next
        case False
        show ?thesis
        proof (cases rule: getProperty_cases [of "userSessions st" "sessionId m" "prototypeDownloaded st"])
          case inherited
          with Inr own False
          have "fileDatabase ?R = fileDatabase st \<and> userSessions ?R = userSessions st"
            by (simp add: downloadFinish_def Let_def)
          then show ?thesis using shrinks_fields [OF shrinks_refl] by blast
        next
          case missing
          with Inr own False
          have "fileDatabase ?R = AList.delete ?fid (fileDatabase st) \<and>
                userSessions ?R = userSessions st"
            by (simp add: downloadFinish_def Let_def)
          then show ?thesis using shrinks_fields [OF k] by simp
        next
          case s: (own sess)
          with Inr own False
          have "fileDatabase ?R = fileDatabase (?D (sessionId m)) \<and>
                userSessions ?R = userSessions (?D (sessionId m))"
            by (simp add: downloadFinish_def Let_def detach_def)
          then show ?thesis using shrinks_fields [OF c] by blast
        qed
      qed
    qed
  qed
qed

lemma attributed_createSession:
  assumes "attributed st up"
  shows "attributed (createSession st newSessionId now) up"
  using assms
  by (auto simp: attributed_def createSession_def update_conv' split: if_splits)

lemma attributed_getOrCreateSession:
  assumes "attributed st up"
  shows "attributed (snd (getOrCreateSession st cookie newSessionId now)) up"
  using assms attributed_createSession
  by (auto simp: getOrCreateSession_def split: option.splits)

lemma attributed_resetSession:
  assumes "attributed st up"
    and "resetSession st sid fails newSessionId now = Some (answer, logged, st')"
  shows "attributed st' up"
proof (cases rule: getProperty_cases [of "userSessions st" sid "prototypeDownloaded st"])
  case inherited
  with assms(2) show ?thesis by (simp add: resetSession_def)
next
  case missing
  with assms(2) have "st' = createSession st newSessionId now" by (auto simp: resetSession_def)
  with assms(1) show ?thesis by (simp add: attributed_createSession)
next
  case (own sess)
  let ?r = "fold (resetFile fails) (files sess) ([], st)"
  let ?c = "(snd ?r)\<lparr>userSessions := AList.delete sid (userSessions (snd ?r))\<rparr>"
  have a: "shrinks st (snd ?r)"
    using shrinks_fold [of "resetFile fails" "([], st)", OF shrinks_resetFile] by simp
  have "shrinks (snd ?r) ?c" by (rule shrinks_delete_session) simp_all
  with a have "shrinks st ?c" by (rule shrinks_trans)
  from attributed_shrinks [OF assms(1) this] have "attributed (createSession ?c newSessionId now) up"
    by (rule attributed_createSession)
  moreover from own assms(2) have "st' = createSession ?c newSessionId now"
    by (auto simp: resetSession_def Let_def)
  ultimately show ?thesis by simp
qed

lemma attributed_fresh:
  assumes "attributed st up" "fid \<notin> dom up"
  shows "attributed st (up(fid \<mapsto> sid))"
  using assms unfolding attributed_def by (metis domI fun_upd_other)

lemma attributed_upload:
  assumes "attributed st up" "newFileId env \<notin> dom up"
  shows "attributed (snd (upload st sid contentTypeHeader buffer env)) (up(newFileId env \<mapsto> sid))"
proof -
  let ?fid = "newFileId env"
  let ?R = "snd (upload st sid contentTypeHeader buffer env)"
  note f = attributed_fresh [OF assms, of sid]
  have cases: "?R = st \<or>
      (\<exists>m. sessionId m = sid \<and>
         fileDatabase ?R = AList.update ?fid m (fileDatabase st) \<and>
         (userSessions ?R = userSessions st \<or>
          (\<exists>sess. map_of (userSessions st) sid = Some sess \<and>
             userSessions ?R = AList.update sid (sess\<lparr>files := files sess @ [?fid]\<rparr>) (userSessions st))))"
  proof (cases "boundaryMatch (case contentTypeHeader of None \<Rightarrow> [] | Some c \<Rightarrow> c)")
    case None
    then show ?thesis by (simp add: upload_def)
  next
    case (Some b)
    let ?p = "parseMultipartFormData buffer b"
    show ?thesis
    proof (cases "fileName ?p")
      case None
      with Some show ?thesis by (simp add: upload_def Let_def)
    next
      case n: (Some name)
      show ?thesis
      proof (cases "fileContent ?p")
        case None
        with Some n show ?thesis by (simp add: upload_def Let_def)
      next
        case c: (Some content)
        let ?m = "\<lparr>originalName = name, filename = ?fid @ extname name, size_f = length content,
                   uploadTime = clockUpload env, expiryTime = clockExpiry env + FILE_EXPIRY,
                   downloaded = False, sessionId = sid\<rparr>"
        show ?thesis
        proof (cases "name = [] \<or> writeFails env")
          case True
          with Some n c show ?thesis by (auto simp: upload_def Let_def)
        next
          case False
          show ?thesis
          proof (cases rule: getProperty_cases [of "userSessions st" sid "prototypeDownloaded st"])
            case (own sess)
            with Some n c False
            have "fileDatabase ?R = AList.update ?fid ?m (fileDatabase st) \<and>
                  userSessions ?R = AList.update sid (sess\<lparr>files := files sess @ [?fid]\<rparr>)
                                      (userSessions st)"
              by (simp add: upload_def Let_def)
            with own(1) show ?thesis by (intro disjI2 exI [of _ ?m]) auto
          next
            case inherited
            with Some n c False
            have "fileDatabase ?R = AList.update ?fid ?m (fileDatabase st) \<and>
                  userSessions ?R = userSessions st"
              by (simp add: upload_def Let_def)
            then show ?thesis by (intro disjI2 exI [of _ ?m]) auto
          next
            case missing
            with Some n c False
            have "fileDatabase ?R = AList.update ?fid ?m (fileDatabase st) \<and>
                  userSessions ?R = userSessions st"
              by (simp add: upload_def Let_def)
            then show ?thesis by (intro disjI2 exI [of _ ?m]) auto
          qed
        qed
      qed
    qed
  qed
  then consider (same) "?R = st"
    | (stored) m where "sessionId m = sid"
        "fileDatabase ?R = AList.update ?fid m (fileDatabase st)"
        "userSessions ?R = userSessions st"
    | (listed) m sess where "sessionId m = sid"
        "fileDatabase ?R = AList.update ?fid m (fileDatabase st)"
        "map_of (userSessions st) sid = Some sess"
        "userSessions ?R = AList.update sid (sess\<lparr>files := files sess @ [?fid]\<rparr>) (userSessions st)"
    by blast
  then show ?thesis
  proof cases
    case same
    with f show ?thesis by simp
  next
    case stored
    show ?thesis
      unfolding attributed_def
    proof (intro conjI allI impI)
      fix s sess fid
      assume "map_of (userSessions ?R) s = Some sess \<and> fid \<in> set (files sess)"
      with stored(3) f show "(up(?fid \<mapsto> sid)) fid = Some s"
        unfolding attributed_def by metis
    next
      fix fid m'
      assume m: "map_of (fileDatabase ?R) fid = Some m'"
      show "(up(?fid \<mapsto> sid)) fid = Some (sessionId m')"
      proof (cases "fid = ?fid")
        case True
        with m stored(2) have "m' = m" by (simp add: update_conv')
        with True stored(1) show ?thesis by simp
      next
        case False
        with m stored(2) have "map_of (fileDatabase st) fid = Some m'" by (simp add: update_conv')
        with f show ?thesis unfolding attributed_def by blast
      qed
    qed
  next
    case listed
    show ?thesis
      unfolding attributed_def
    proof (intro conjI allI impI)
      fix s sess' fid
      assume a: "map_of (userSessions ?R) s = Some sess' \<and> fid \<in> set (files sess')"
      show "(up(?fid \<mapsto> sid)) fid = Some s"
      proof (cases "s = sid")
        case True
        with a listed(3,4) have "fid = ?fid \<or> fid \<in> set (files sess)"
          by (auto simp: update_conv')
        then show ?thesis
        proof
          assume "fid = ?fid"
          with True show ?thesis by simp
        next
          assume "fid \<in> set (files sess)"
          with listed(3) f True show ?thesis unfolding attributed_def by blast
        qed
      next
        case False
        with a listed(4) have "map_of (userSessions st) s = Some sess'" by (simp add: update_conv')
        with a f show ?thesis unfolding attributed_def by blast
      qed
    next
      fix fid m'
      assume m: "map_of (fileDatabase ?R) fid = Some m'"
      show "(up(?fid \<mapsto> sid)) fid = Some (sessionId m')"
      proof (cases "fid = ?fid")
        case True
        with m listed(2) have "m' = m" by (simp add: update_conv')
        with True listed(1) show ?thesis by simp
      next
        case False
        with m listed(2) have "map_of (fileDatabase st) fid = Some m'" by (simp add: update_conv')
        with f show ?thesis unfolding attributed_def by blast
      qed
    qed
  qed
qed

lemma reach_attributed: "reach st up \<Longrightarrow> attributed st up"
proof (induction rule: reach.induct)
  case (start files_on_disk)
  show ?case by (simp add: attributed_def)
next
  case (request st up cookie newSessionId now)
  then show ?case by (simp add: attributed_getOrCreateSession)
next
  case (uploaded st up env sid contentTypeHeader buffer)
  from uploaded.IH uploaded.hyps(2) show ?case by (rule attributed_upload)
next
  case (download_started st up name answer st')
  then show ?case using attributed_shrinks shrinks_downloadStart by blast
next
  case (download_finished st up name fails)
  then show ?case using attributed_shrinks shrinks_downloadFinish by blast
next
  case (session_reset st up sid fails newSessionId now answer logged st')
  then show ?case using attributed_resetSession by blast
next
  case (swept st up now fails)
  then show ?case using attributed_shrinks shrinks_sweep by blast
qed

lemma ex_started_sessions:
  "map_of (userSessions ex_started) ex_session = Some \<lparr>created = 0, files = []\<rparr>"
  "map_of (userSessions ex_started) (js ''s0'') = Some \<lparr>created = 0, files = []\<rparr>"
  "fileDatabase ex_started = []"
  "ex_session \<noteq> js ''s0''"
  by (simp_all add: ex_started_def getOrCreateSession_def createSession_def ex_session_def js_def)

lemma ex_reach: "reach ex_reached ex_uploaders"
  unfolding ex_reached_def ex_started_def ex_uploaders_def
  by (intro reach.uploaded reach.request reach.start) simp

lemma ex_listing:
  "listFiles ex_reached ex_session = Some (200, Files [ex_entry])"
  "listFiles ex_reached (js ''s0'') = Some (200, Files [])"
proof -
  note u = upload_stored [OF ex_boundaryMatch ex_parse ex_name_nonempty ex_not_writeFails,
      of ex_started ex_session]
  have i: "newFileId ex_env = js ''ab12''" "clockUpload ex_env = 1000" "clockExpiry ex_env = 1001"
    by (simp_all add: ex_env_def)
  have l: "length (Buffer_from (js ''hi'')) = 2"
    by (simp add: Buffer_from_def js_def utf8_encode_cp_def)
  have db: "map_of (fileDatabase ex_reached) (js ''ab12'')
            = Some \<lparr>originalName = js ''b.txt'', filename = js ''ab12.txt'', size_f = 2,
                    uploadTime = 1000, expiryTime = 1001 + FILE_EXPIRY, downloaded = False,
                    sessionId = ex_session\<rparr>"
    using u(2) ex_unique by (simp add: ex_reached_def i l)
  have s1: "map_of (userSessions ex_reached) ex_session = Some \<lparr>created = 0, files = [js ''ab12'']\<rparr>"
    using u(4) [OF ex_started_sessions(1)] by (simp add: ex_reached_def i)
  show "listFiles ex_reached ex_session = Some (200, Files [ex_entry])"
    by (simp add: listFiles_def s1 db ex_entry_def)
  have "userSessions ex_reached
        = AList.update ex_session \<lparr>created = 0, files = [js ''ab12'']\<rparr> (userSessions ex_started)"
    using ex_started_sessions(1)
    by (simp add: ex_reached_def upload_def Let_def ex_boundaryMatch ex_parse ex_name_nonempty
        ex_not_writeFails i)
  then have s0: "map_of (userSessions ex_reached) (js ''s0'') = Some \<lparr>created = 0, files = []\<rparr>"
    using ex_started_sessions(2,4) by (simp add: update_conv')
  show "listFiles ex_reached (js ''s0'') = Some (200, Files [])"
    by (simp add: listFiles_def s0)
qed

section \<open>Session isolation\<close>

text \<open>
  Claim C3. In every reachable store, with distinct sessions \<open>A\<close> and \<open>B\<close>, every
  entry of the listing that \<open>GET /api/files\<close> returns for \<open>A\<close> has an id that was
  handed to an upload of \<open>A\<close>, so not to one of \<open>B\<close>, and the record it shows is
  owned by \<open>A\<close>.
\<close>

theorem listing_shows_own_uploads_only:
  assumes "reach st up" and "A \<noteq> B"
    and "listFiles st A = Some (200, Files es)" and "e \<in> set es"
  shows "up (entry_id e) = Some A \<and> up (entry_id e) \<noteq> Some B \<and>
         (\<exists>m. map_of (fileDatabase st) (entry_id e) = Some m \<and> sessionId m = A \<and>
              entry_originalName e = originalName m \<and> entry_downloadLink e = filename m)"
proof -
  from assms(3) obtain sess where sess: "map_of (userSessions st) A = Some sess"
    by (cases rule: getProperty_cases [of "userSessions st" A "prototypeDownloaded st"])
       (auto simp: listFiles_def)
  with assms(3) have es: "es = map (\<lambda>fileId. let metadata = the (map_of (fileDatabase st) fileId)
                    in FileEntry fileId (originalName metadata) (size_f metadata)
                         (uploadTime metadata) (expiryTime metadata) (filename metadata))
               (filter (\<lambda>fileId. map_of (fileDatabase st) fileId \<noteq> None) (files sess))"
    by (simp add: listFiles_def)
  with assms(4) obtain fid m where fid: "fid \<in> set (files sess)"
    and m: "map_of (fileDatabase st) fid = Some m"
    and e: "e = FileEntry fid (originalName m) (size_f m) (uploadTime m) (expiryTime m) (filename m)"
    by (auto simp: Let_def)
  from reach_attributed [OF assms(1)] have a: "attributed st up" .
  from a sess fid have u: "up fid = Some A" unfolding attributed_def by blast
  from a m have "up fid = Some (sessionId m)" unfolding attributed_def by blast
  with u have "sessionId m = A" by simp
  with u m e assms(2) show ?thesis by simp
qed

theorem listing_shows_own_uploads_only_witness:
  "reach ex_reached ex_uploaders \<and> ex_session \<noteq> js ''s0'' \<and>
   listFiles ex_reached ex_session = Some (200, Files [ex_entry]) \<and>
   ex_entry \<in> set [ex_entry] \<and>
   listFiles ex_reached (js ''s0'') = Some (200, Files []) \<and>
   ex_uploaders (entry_id ex_entry) = Some ex_session \<and>
   ex_uploaders (entry_id ex_entry) \<noteq> Some (js ''s0'')"
proof -
  have i: "ex_entry \<in> set [ex_entry]" by simp
  from listing_shows_own_uploads_only [OF ex_reach ex_started_sessions(4) ex_listing(1) i]
    ex_reach ex_started_sessions(4) ex_listing
  show ?thesis by simp
qed

text \<open>
  The isolation rests on the premise of \<open>reach\<close> that \<open>generateUniqueId\<close> hands out an
  id only once (16 random bytes). Were the id of a record held by session \<open>s0\<close> drawn
  again for an upload of another session, the listing of \<open>s0\<close> would show the new file.
\<close>

lemma colliding_id_crosses_sessions:
  "map_of (userSessions ex_server_taken) (js ''s0'') = Some \<lparr>created = 0, files = [js ''ab12'']\<rparr> \<and>
   listFiles (snd (upload ex_server_taken ex_session (Some ex_contentType) ex_body ex_env)) (js ''s0'')
     = Some (200, Files [ex_entry])"
proof -
  let ?st = "snd (upload ex_server_taken ex_session (Some ex_contentType) ex_body ex_env)"
  note u = upload_stored [OF ex_boundaryMatch ex_parse ex_name_nonempty ex_not_writeFails,
      of ex_server_taken ex_session]
  have i: "newFileId ex_env = js ''ab12''" "clockUpload ex_env = 1000" "clockExpiry ex_env = 1001"
    by (simp_all add: ex_env_def)
  have l: "length (Buffer_from (js ''hi'')) = 2"
    by (simp add: Buffer_from_def js_def utf8_encode_cp_def)
  have db: "map_of (fileDatabase ?st) (js ''ab12'')
            = Some \<lparr>originalName = js ''b.txt'', filename = js ''ab12.txt'', size_f = 2,
                    uploadTime = 1000, expiryTime = 1001 + FILE_EXPIRY, downloaded = False,
                    sessionId = ex_session\<rparr>"
    using u(2) ex_unique by (simp add: i l)
  have "userSessions ?st
        = AList.update ex_session \<lparr>created = 0, files = [js ''ab12'']\<rparr> (userSessions ex_server_taken)"
    using ex_taken_session
    by (simp add: upload_def Let_def ex_boundaryMatch ex_parse ex_name_nonempty
        ex_not_writeFails i)
  then have s0: "map_of (userSessions ?st) (js ''s0'') = Some \<lparr>created = 0, files = [js ''ab12'']\<rparr>"
    using ex_taken_s0 ex_started_sessions(4) by (simp add: update_conv')
  have "listFiles ?st (js ''s0'') = Some (200, Files [ex_entry])"
    by (simp add: listFiles_def s0 db ex_entry_def)
  with ex_taken_s0 show ?thesis by simp
qed

section \<open>The handlers and the \<open>downloaded\<close> flags\<close>

lemma unflag_fields [simp]:
  "originalName (unflag m) = originalName m" "filename (unflag m) = filename m"
  "size_f (unflag m) = size_f m" "uploadTime (unflag m) = uploadTime m"
  "expiryTime (unflag m) = expiryTime m" "sessionId (unflag m) = sessionId m"
  "unflag (unflag m) = unflag m" "unflag (m\<lparr>downloaded := b\<rparr>) = unflag m"
  by (simp_all add: unflag_def)

lemma unflag_all_simps [simp]:
  "unflag_all [] = []"
  "unflag_all ((k, m) # db) = (k, unflag m) # unflag_all db"
  by (simp_all add: unflag_all_def)

lemma map_of_unflag_all: "map_of (unflag_all db) k = map_option unflag (map_of db k)"
  by (induction db) auto

lemma getProperty_unflag_all:
  "getProperty marked (unflag_all db) k
   = (case getProperty marked db k of Own m \<Rightarrow> Own (unflag m) | Inherited \<Rightarrow> Inherited
      | Missing \<Rightarrow> Missing)"
  by (cases "map_of db k") (simp_all add: getProperty_def map_of_unflag_all)

lemma unflag_all_delete: "unflag_all (AList.delete k db) = AList.delete k (unflag_all db)"
  by (induction db) auto

lemma unflag_all_update: "unflag_all (AList.update k v db) = AList.update k (unflag v) (unflag_all db)"
  by (induction db) auto

lemma unflag_all_idem [simp]: "unflag_all (unflag_all db) = unflag_all db"
  by (induction db) auto

lemma erase_fields [simp]:
  "fileDatabase (erase st) = unflag_all (fileDatabase st)"
  "userSessions (erase st) = userSessions st"
  "disk (erase st) = disk st"
  "prototypeDownloaded (erase st) = prototypeDownloaded st"
  by (simp_all add: erase_def)

lemma erase_idem [simp]: "erase (erase st) = erase st"
  by (simp add: erase_def)

lemma listFiles_erase: "listFiles (erase st) sid = listFiles st sid"
proof (cases rule: getProperty_cases [of "userSessions st" sid "prototypeDownloaded st"])
  case (own sess)
  have f: "filter (\<lambda>fileId. map_of (unflag_all (fileDatabase st)) fileId \<noteq> None) (files sess)
           = filter (\<lambda>fileId. map_of (fileDatabase st) fileId \<noteq> None) (files sess)"
    by (simp add: map_of_unflag_all)
  show ?thesis
    using own unfolding listFiles_def
    by (auto simp: f map_of_unflag_all Let_def)
next
  case inherited
  then show ?thesis by (simp add: listFiles_def)
next
  case missing
  then show ?thesis by (simp add: listFiles_def)
qed

lemma erase_update_simps:
  "erase (st\<lparr>disk := d\<rparr>) = (erase st)\<lparr>disk := d\<rparr>"
  "erase (st\<lparr>userSessions := us\<rparr>) = (erase st)\<lparr>userSessions := us\<rparr>"
  "erase (st\<lparr>fileDatabase := db\<rparr>) = (erase st)\<lparr>fileDatabase := unflag_all db\<rparr>"
  "erase (st\<lparr>prototypeDownloaded := b\<rparr>) = (erase st)\<lparr>prototypeDownloaded := b\<rparr>"
  by (simp_all add: erase_def)

lemma upload_erase:
  "upload (erase st) sid contentTypeHeader buffer env
     = (fst (upload st sid contentTypeHeader buffer env),
        erase (snd (upload st sid contentTypeHeader buffer env)))"
  by (simp add: upload_def Let_def erase_update_simps unflag_all_update unflag_def
      split: option.splits property.splits)

lemma createSession_erase:
  "createSession (erase st) newSessionId now = erase (createSession st newSessionId now)"
  by (simp add: createSession_def erase_update_simps)

lemma getOrCreateSession_erase:
  "getOrCreateSession (erase st) cookie newSessionId now
     = (fst (getOrCreateSession st cookie newSessionId now),
        erase (snd (getOrCreateSession st cookie newSessionId now)))"
  by (simp add: getOrCreateSession_def createSession_erase split: option.splits)

lemma downloadStart_erase:
  "map_option (\<lambda>r. (fst r, erase (snd r))) (downloadStart (erase st) name)
   = map_option (\<lambda>r. (fst r, erase (snd r))) (downloadStart st name)"
proof (cases "disk st (path_join UPLOAD_DIR name)")
  case None
  then show ?thesis by (simp add: downloadStart_def Let_def)
next
  case (Some bytes)
  show ?thesis
  proof (cases rule: getProperty_cases [of "fileDatabase st" "fileIdOf name" "prototypeDownloaded st"])
    case (own m)
    with Some show ?thesis
      by (simp add: downloadStart_def Let_def getProperty_unflag_all erase_update_simps
          unflag_all_update)
  next
    case inherited
    with Some show ?thesis
      by (simp add: downloadStart_def Let_def getProperty_unflag_all erase_update_simps)
  next
    case missing
    with Some show ?thesis
      by (simp add: downloadStart_def Let_def getProperty_unflag_all)
  qed
qed

lemma detach_erase: "detach sid fid (erase st) = erase (detach sid fid st)"
  by (simp add: detach_def erase_update_simps split: option.splits)

lemma downloadFinish_erase:
  "downloadFinish (erase st) name fails
     = (fst (downloadFinish st name fails), erase (snd (downloadFinish st name fails)))"
proof (cases "unlinkSync fails (path_join UPLOAD_DIR name) (disk st)")
  case (Inl err)
  then show ?thesis by (simp add: downloadFinish_def Let_def)
next
  case (Inr d)
  show ?thesis
  proof (cases rule: getProperty_cases [of "fileDatabase st" "fileIdOf name" "prototypeDownloaded st"])
    case (own m)
    with Inr show ?thesis
      by (cases rule: getProperty_cases [of "userSessions st" "sessionId m" "prototypeDownloaded st"])
         (simp_all add: downloadFinish_def Let_def getProperty_unflag_all erase_update_simps
            unflag_all_delete)
  next
    case inherited
    with Inr show ?thesis
      by (simp add: downloadFinish_def Let_def getProperty_unflag_all erase_update_simps)
  next
    case missing
    with Inr show ?thesis
      by (simp add: downloadFinish_def Let_def getProperty_unflag_all erase_update_simps)
  qed
qed

lemma undeletable_erase [simp]: "undeletable (erase s) fails (unflag m) = undeletable s fails m"
  by (simp add: undeletable_def)

lemma sweepFile_erase:
  "sweepFile now fails (k, unflag m) (lg, erase s)
     = (fst (sweepFile now fails (k, m) (lg, s)), erase (snd (sweepFile now fails (k, m) (lg, s))))"
proof -
  have "fst (sweepFile now fails (k, unflag m) (lg, erase s)) = fst (sweepFile now fails (k, m) (lg, s))"
    by (simp add: sweepFile_fst)
  moreover have "snd (sweepFile now fails (k, unflag m) (lg, erase s))
                 = erase (snd (sweepFile now fails (k, m) (lg, s)))"
    by (simp add: sweepFile_snd sweepable_def detach_erase [symmetric] erase_update_simps
        unflag_all_delete)
  ultimately show ?thesis by (metis prod.collapse)
qed

lemma sweepFiles_fold_erase:
  "fold (sweepFile now fails) (unflag_all es) (lg, erase s)
     = (fst (fold (sweepFile now fails) es (lg, s)), erase (snd (fold (sweepFile now fails) es (lg, s))))"
proof (induction es arbitrary: lg s)
  case Nil
  show ?case by simp
next
  case (Cons e es)
  obtain k m where e: "e = (k, m)" by (cases e)
  obtain lg' s' where r: "sweepFile now fails (k, m) (lg, s) = (lg', s')"
    by (cases "sweepFile now fails (k, m) (lg, s)")
  show ?case using Cons [of lg' s'] by (simp add: e sweepFile_erase r)
qed

lemma sweepSession_erase:
  "sweepSession now e (lg, erase s)
     = (fst (sweepSession now e (lg, s)), erase (snd (sweepSession now e (lg, s))))"
  by (simp add: sweepSession_def Let_def erase_update_simps)

lemma sweepSessions_fold_erase:
  "fold (sweepSession now) es (lg, erase s)
     = (fst (fold (sweepSession now) es (lg, s)), erase (snd (fold (sweepSession now) es (lg, s))))"
proof (induction es arbitrary: lg s)
  case Nil
  show ?case by simp
next
  case (Cons e es)
  obtain lg' s' where r: "sweepSession now e (lg, s) = (lg', s')"
    by (cases "sweepSession now e (lg, s)")
  show ?case using Cons [of lg' s'] by (simp add: sweepSession_erase r)
qed

lemma sweep_erase:
  "sweep now fails (erase st) = (fst (sweep now fails st), erase (snd (sweep now fails st)))"
proof -
  have a: "sweepFiles now fails (erase st)
           = (fst (sweepFiles now fails st), erase (snd (sweepFiles now fails st)))"
    by (simp add: sweepFiles_def sweepFiles_fold_erase)
  have b: "sweepSessions now (erase s) = (fst (sweepSessions now s), erase (snd (sweepSessions now s)))"
    for s by (simp add: sweepSessions_def sweepSessions_fold_erase)
  show ?thesis by (simp add: sweep_def Let_def a b)
qed

lemma resetFile_erase:
  "resetFile fails fileId (lg, erase s)
     = (fst (resetFile fails fileId (lg, s)), erase (snd (resetFile fails fileId (lg, s))))"
proof -
  have "fst (resetFile fails fileId (lg, erase s)) = fst (resetFile fails fileId (lg, s))"
    by (cases "map_of (fileDatabase s) fileId") (simp_all add: resetFile_fst map_of_unflag_all)
  moreover have "snd (resetFile fails fileId (lg, erase s))
                 = erase (snd (resetFile fails fileId (lg, s)))"
    by (cases "map_of (fileDatabase s) fileId")
       (simp_all add: resetFile_snd map_of_unflag_all erase_update_simps unflag_all_delete)
  ultimately show ?thesis by (metis prod.collapse)
qed

lemma resetFiles_fold_erase:
  "fold (resetFile fails) ids (lg, erase s)
     = (fst (fold (resetFile fails) ids (lg, s)), erase (snd (fold (resetFile fails) ids (lg, s))))"
proof (induction ids arbitrary: lg s)
  case Nil
  show ?case by simp
next
  case (Cons i ids)
  obtain lg' s' where r: "resetFile fails i (lg, s) = (lg', s')"
    by (cases "resetFile fails i (lg, s)")
  show ?case using Cons [of lg' s'] by (simp add: resetFile_erase r)
qed

lemma resetSession_erase:
  "resetSession (erase st) sid fails newSessionId now
     = map_option (\<lambda>r. (fst r, fst (snd r), erase (snd (snd r))))
         (resetSession st sid fails newSessionId now)"
proof (cases rule: getProperty_cases [of "userSessions st" sid "prototypeDownloaded st"])
  case (own sess)
  have c: "createSession ((erase x)\<lparr>userSessions := us\<rparr>) newSessionId now
           = erase (createSession (x\<lparr>userSessions := us\<rparr>) newSessionId now)" for x us
    using createSession_erase [of "x\<lparr>userSessions := us\<rparr>" newSessionId now]
    by (simp add: erase_update_simps)
  from own show ?thesis
    by (simp add: resetSession_def Let_def resetFiles_fold_erase c)
next
  case inherited
  then show ?thesis by (simp add: resetSession_def)
next
  case missing
  then show ?thesis by (simp add: resetSession_def createSession_erase)
qed

text \<open>What an upload changes in \<open>fileDatabase\<close>: nothing, or the record under the new id.\<close>

lemma upload_changes:
  assumes "map_of (fileDatabase (snd (upload st sid contentTypeHeader buffer env))) fid = Some m"
    and "map_of (fileDatabase st) fid \<noteq> Some m"
  shows "fid = newFileId env \<and> downloaded m = False \<and> sessionId m = sid"
  using assms
  by (auto simp: upload_def Let_def update_conv' split: option.splits property.splits if_splits)

section \<open>The \<open>downloaded\<close> flag is written and never read\<close>

text \<open>
  Claim C10. For two stores that differ only in the values of \<open>downloaded\<close> flags, the
  head of a request, upload, file listing, download start, download completion, session
  reset and sweep give the same response and log (or end in the same uncaught
  exception), and stores that again differ only in the flags. An upload that stores a
  record stores it with the flag false, and changes no other record; a download that
  starts sets the flag of the record it serves.
\<close>

theorem downloaded_flag_never_read:
  assumes "erase s = erase t"
  shows "fst (getOrCreateSession s cookie newSessionId now)
           = fst (getOrCreateSession t cookie newSessionId now) \<and>
         erase (snd (getOrCreateSession s cookie newSessionId now))
           = erase (snd (getOrCreateSession t cookie newSessionId now)) \<and>
         fst (upload s sid contentTypeHeader buffer env) = fst (upload t sid contentTypeHeader buffer env) \<and>
         erase (snd (upload s sid contentTypeHeader buffer env))
           = erase (snd (upload t sid contentTypeHeader buffer env)) \<and>
         listFiles s sid = listFiles t sid \<and>
         map_option (\<lambda>r. (fst r, erase (snd r))) (downloadStart s name)
           = map_option (\<lambda>r. (fst r, erase (snd r))) (downloadStart t name) \<and>
         fst (downloadFinish s name fails) = fst (downloadFinish t name fails) \<and>
         erase (snd (downloadFinish s name fails)) = erase (snd (downloadFinish t name fails)) \<and>
         map_option (\<lambda>r. (fst r, fst (snd r), erase (snd (snd r))))
             (resetSession s sid fails newSessionId now)
           = map_option (\<lambda>r. (fst r, fst (snd r), erase (snd (snd r))))
               (resetSession t sid fails newSessionId now) \<and>
         fst (sweep now fails s) = fst (sweep now fails t) \<and>
         erase (snd (sweep now fails s)) = erase (snd (sweep now fails t)) \<and>
         (\<forall>ct b fname content.
            contentTypeHeader = Some ct \<and> boundaryMatch ct = Some b \<and>
            parseMultipartFormData buffer b = \<lparr>fileName = Some fname, fileContent = Some content\<rparr> \<and>
            fname \<noteq> [] \<and> \<not> writeFails env
            \<longrightarrow> map_of (fileDatabase (snd (upload s sid contentTypeHeader buffer env))) (newFileId env)
                  = Some \<lparr>originalName = fname, filename = newFileId env @ extname fname,
                          size_f = length content, uploadTime = clockUpload env,
                          expiryTime = clockExpiry env + FILE_EXPIRY, downloaded = False,
                          sessionId = sid\<rparr>) \<and>
         (\<forall>fid m. map_of (fileDatabase (snd (upload s sid contentTypeHeader buffer env))) fid = Some m \<and>
              map_of (fileDatabase s) fid \<noteq> Some m
            \<longrightarrow> fid = newFileId env \<and> downloaded m = False) \<and>
         (\<forall>bytes m. disk s (path_join UPLOAD_DIR name) = Some bytes \<and>
              map_of (fileDatabase s) (fileIdOf name) = Some m \<and>
              list_all validHeaderChar (originalName m)
            \<longrightarrow> downloadStart s name
                  = Some ((200, Attachment (originalName m) bytes),
                          s\<lparr>fileDatabase := AList.update (fileIdOf name) (m\<lparr>downloaded := True\<rparr>)
                                (fileDatabase s)\<rparr>))"
proof -
  have g: "fst (getOrCreateSession s cookie newSessionId now)
           = fst (getOrCreateSession t cookie newSessionId now) \<and>
         erase (snd (getOrCreateSession s cookie newSessionId now))
           = erase (snd (getOrCreateSession t cookie newSessionId now))"
    using getOrCreateSession_erase [of s cookie newSessionId now]
      getOrCreateSession_erase [of t cookie newSessionId now] assms
    by (metis fst_conv snd_conv)
  have u: "fst (upload s sid contentTypeHeader buffer env) = fst (upload t sid contentTypeHeader buffer env)
         \<and> erase (snd (upload s sid contentTypeHeader buffer env))
           = erase (snd (upload t sid contentTypeHeader buffer env))"
    using upload_erase [of s sid contentTypeHeader buffer env]
      upload_erase [of t sid contentTypeHeader buffer env] assms
    by (metis fst_conv snd_conv)
  have l: "listFiles s sid = listFiles t sid"
    using listFiles_erase [of s sid] listFiles_erase [of t sid] assms by simp
  have d: "map_option (\<lambda>r. (fst r, erase (snd r))) (downloadStart s name)
           = map_option (\<lambda>r. (fst r, erase (snd r))) (downloadStart t name)"
    using downloadStart_erase [of s name] downloadStart_erase [of t name] assms by simp
  have f: "fst (downloadFinish s name fails) = fst (downloadFinish t name fails) \<and>
           erase (snd (downloadFinish s name fails)) = erase (snd (downloadFinish t name fails))"
    using downloadFinish_erase [of s name fails] downloadFinish_erase [of t name fails] assms
    by (metis fst_conv snd_conv)
  have r: "map_option (\<lambda>r. (fst r, fst (snd r), erase (snd (snd r))))
             (resetSession s sid fails newSessionId now)
           = map_option (\<lambda>r. (fst r, fst (snd r), erase (snd (snd r))))
               (resetSession t sid fails newSessionId now)"
  proof -
    have "map_option (\<lambda>r. (fst r, fst (snd r), erase (snd (snd r))))
             (resetSession x sid fails newSessionId now)
          = map_option (\<lambda>r. (fst r, fst (snd r), erase (snd (snd r))))
             (resetSession (erase x) sid fails newSessionId now)" for x
      by (simp add: resetSession_erase option.map_comp comp_def)
    from this [of s] this [of t] assms show ?thesis by simp
  qed
  have w: "fst (sweep now fails s) = fst (sweep now fails t) \<and>
           erase (snd (sweep now fails s)) = erase (snd (sweep now fails t))"
    using sweep_erase [of now fails s] sweep_erase [of now fails t] assms
    by (metis fst_conv snd_conv)
  have i: "\<forall>ct b fname content.
            contentTypeHeader = Some ct \<and> boundaryMatch ct = Some b \<and>
            parseMultipartFormData buffer b = \<lparr>fileName = Some fname, fileContent = Some content\<rparr> \<and>
            fname \<noteq> [] \<and> \<not> writeFails env
            \<longrightarrow> map_of (fileDatabase (snd (upload s sid contentTypeHeader buffer env))) (newFileId env)
                  = Some \<lparr>originalName = fname, filename = newFileId env @ extname fname,
                          size_f = length content, uploadTime = clockUpload env,
                          expiryTime = clockExpiry env + FILE_EXPIRY, downloaded = False,
                          sessionId = sid\<rparr>"
    using upload_stored(2) by blast
  have c: "\<forall>fid m. map_of (fileDatabase (snd (upload s sid contentTypeHeader buffer env))) fid = Some m \<and>
              map_of (fileDatabase s) fid \<noteq> Some m
            \<longrightarrow> fid = newFileId env \<and> downloaded m = False"
    using upload_changes by blast
  have m: "\<forall>bytes m. disk s (path_join UPLOAD_DIR name) = Some bytes \<and>
              map_of (fileDatabase s) (fileIdOf name) = Some m \<and>
              list_all validHeaderChar (originalName m)
            \<longrightarrow> downloadStart s name
                  = Some ((200, Attachment (originalName m) bytes),
                          s\<lparr>fileDatabase := AList.update (fileIdOf name) (m\<lparr>downloaded := True\<rparr>)
                                (fileDatabase s)\<rparr>)"
    using downloadStart_found by blast
  from g u l d f r w i c m show ?thesis by blast
qed


theorem downloaded_flag_never_read_witness:
  "erase ex_server_taken = erase ex_flagged \<and>
   map_of (fileDatabase ex_server_taken) (js ''ab12'') \<noteq> map_of (fileDatabase ex_flagged) (js ''ab12'') \<and>
   listFiles ex_server_taken (js ''s0'') = listFiles ex_flagged (js ''s0'') \<and>
   map_option fst (downloadStart ex_server_taken (js ''ab12.txt''))
     = map_option fst (downloadStart ex_flagged (js ''ab12.txt'')) \<and>
   fst (sweep 1000 never ex_server_taken) = fst (sweep 1000 never ex_flagged) \<and>
   erase (snd (sweep 1000 never ex_server_taken)) = erase (snd (sweep 1000 never ex_flagged)) \<and>
   disk ex_server_taken (path_join UPLOAD_DIR (js ''ab12.txt'')) = Some (Buffer_from (js ''old'')) \<and>
   map_of (fileDatabase ex_server_taken) (fileIdOf (js ''ab12.txt'')) = Some ex_old_record \<and>
   list_all validHeaderChar (originalName ex_old_record) \<and>
   downloaded ex_old_record = False \<and>
   downloadStart ex_server_taken (js ''ab12.txt'')
     = Some ((200, Attachment (originalName ex_old_record) (Buffer_from (js ''old''))),
             ex_server_taken\<lparr>fileDatabase := AList.update (fileIdOf (js ''ab12.txt''))
                (ex_old_record\<lparr>downloaded := True\<rparr>) (fileDatabase ex_server_taken)\<rparr>) \<and>
   boundaryMatch ex_contentType = Some ex_boundary \<and>
   parseMultipartFormData ex_body ex_boundary
     = \<lparr>fileName = Some (js ''b.txt''), fileContent = Some (Buffer_from (js ''hi''))\<rparr> \<and>
   js ''b.txt'' \<noteq> [] \<and> \<not> writeFails ex_env \<and>
   map_of (fileDatabase (snd (upload ex_server_taken ex_session (Some ex_contentType) ex_body ex_env)))
     (newFileId ex_env)
     = Some \<lparr>originalName = js ''b.txt'', filename = newFileId ex_env @ extname (js ''b.txt''),
             size_f = length (Buffer_from (js ''hi'')), uploadTime = clockUpload ex_env,
             expiryTime = clockExpiry ex_env + FILE_EXPIRY, downloaded = False,
             sessionId = ex_session\<rparr>"
proof -
  have e: "erase ex_server_taken = erase ex_flagged"
    by (simp add: erase_def ex_flagged_def ex_server_taken_def unflag_def ex_old_record_def)
  have d: "map_of (fileDatabase ex_server_taken) (js ''ab12'')
           \<noteq> map_of (fileDatabase ex_flagged) (js ''ab12'')"
    by (simp add: ex_flagged_def ex_server_taken_def ex_old_record_def)
  have o: "downloaded ex_old_record = False" by (simp add: ex_old_record_def)
  note t = downloaded_flag_never_read [OF e, where sid = "js ''s0''" and name = "js ''ab12.txt''"
      and now = 1000 and fails = never]
  note v = downloaded_flag_never_read [OF e, where sid = ex_session and name = "js ''ab12.txt''"
      and contentTypeHeader = "Some ex_contentType" and buffer = ex_body and env = ex_env]
  from t have a1: "listFiles ex_server_taken (js ''s0'') = listFiles ex_flagged (js ''s0'')"
    by blast
  from t have "map_option (\<lambda>r. (fst r, erase (snd r))) (downloadStart ex_server_taken (js ''ab12.txt''))
     = map_option (\<lambda>r. (fst r, erase (snd r))) (downloadStart ex_flagged (js ''ab12.txt''))"
    by blast
  then have "map_option fst (map_option (\<lambda>r. (fst r, erase (snd r)))
                 (downloadStart ex_server_taken (js ''ab12.txt'')))
     = map_option fst (map_option (\<lambda>r. (fst r, erase (snd r)))
                 (downloadStart ex_flagged (js ''ab12.txt'')))"
    by simp
  then have a2: "map_option fst (downloadStart ex_server_taken (js ''ab12.txt''))
     = map_option fst (downloadStart ex_flagged (js ''ab12.txt''))"
    by (simp add: option.map_comp comp_def)
  from t have a3: "fst (sweep 1000 never ex_server_taken) = fst (sweep 1000 never ex_flagged) \<and>
     erase (snd (sweep 1000 never ex_server_taken)) = erase (snd (sweep 1000 never ex_flagged))"
    by blast
  from t ex_taken_disk ex_taken_lookup ex_old_name
  have a4: "downloadStart ex_server_taken (js ''ab12.txt'')
     = Some ((200, Attachment (originalName ex_old_record) (Buffer_from (js ''old''))),
             ex_server_taken\<lparr>fileDatabase := AList.update (fileIdOf (js ''ab12.txt''))
                (ex_old_record\<lparr>downloaded := True\<rparr>) (fileDatabase ex_server_taken)\<rparr>)"
    by blast
  from v ex_boundaryMatch ex_parse ex_name_nonempty ex_not_writeFails
  have a5: "map_of (fileDatabase (snd (upload ex_server_taken ex_session (Some ex_contentType) ex_body ex_env)))
     (newFileId ex_env)
     = Some \<lparr>originalName = js ''b.txt'', filename = newFileId ex_env @ extname (js ''b.txt''),
             size_f = length (Buffer_from (js ''hi'')), uploadTime = clockUpload ex_env,
             expiryTime = clockExpiry ex_env + FILE_EXPIRY, downloaded = False,
             sessionId = ex_session\<rparr>"
    by blast
  from e d a1 a2 a3 ex_taken_disk ex_taken_lookup ex_old_name o a4 ex_boundaryMatch ex_parse
    ex_name_nonempty ex_not_writeFails a5
  show ?thesis by blast
qed

section \<open>The two upload handlers on the same requests\<close>

lemmas simple_defs = upload_simple_def download_simple_def js_split_def findFilePart.simps
  filenameMatchLazy.simps lineTerminator_def lastIndexOf_def indexOf_def includes_buf_def slice_def
  toString_def utf8_first_def utf8_idle_def multipart.simps Let_def jslength_def
  ex_simple_server_def ex_contentType_def ex_env_def ex_headers_def ex_epilogue_def ex_boundary_def

lemma ex_ff_found:
  "findFilePart (js_split (toString ex_ff_body) (dashes @ js ''X'')) ([], None)
     = (js ''b.txt'', Some [0xFFFD])"
  by (simp add: ex_ff_body_def simple_defs buffer_defs)

lemma ex_empty_found:
  "findFilePart (js_split (toString ex_empty_body) (dashes @ js ''X'')) ([], None)
     = (js ''b.txt'', Some [])"
  by (simp add: ex_empty_body_def simple_defs buffer_defs)

lemma ex_simple_boundary:
  "(case js_split ex_contentType (js ''boundary='') of x # y # zs \<Rightarrow> y | _ \<Rightarrow> js ''undefined'')
     = js ''X''"
  by (simp add: simple_defs js_def)

lemma ex_undefined_found:
  "findFilePart (js_split (toString ex_body) (dashes @ js ''undefined'')) ([], None)
     = (js ''b.txt'', Some (crlf @ js ''--X'' @ toString ex_part_file @ js ''--X--''))"
  by (simp add: ex_body_def ex_part_noname_def ex_part_file_def simple_defs buffer_defs)

lemma ex_no_boundary:
  "(case js_split (js ''multipart/form-data'') (js ''boundary='') of
      x # y # zs \<Rightarrow> y | _ \<Rightarrow> js ''undefined'') = js ''undefined''"
  by (simp add: simple_defs js_def)

text \<open>
  The handler of the enhanced server, which gives the body as a \<open>Buffer\<close> to
  \<open>parseMultipartFormData\<close>, on these requests: the byte \<open>0xFF\<close> comes back as it
  was sent, the empty file is stored with size 0, and a header without a boundary is
  answered 400 with its cause. In general these are \<open>upload_then_download\<close> (for an
  original name that a response header can carry) and \<open>upload_no_boundary\<close>.
\<close>

lemma ex_ff_well_formed: "well_formed ex_boundary [] ([] @ filePart ex_headers [0xFF] # []) ex_epilogue"
  by (simp add: well_formed_def delimiter_free_def ex_defs buffer_defs)

lemma ex_empty_well_formed: "well_formed ex_boundary [] ([] @ filePart ex_headers [] # []) ex_epilogue"
  by (simp add: well_formed_def delimiter_free_def ex_defs buffer_defs)

lemma ex_server_session: "map_of (userSessions ex_server) ex_session = Some \<lparr>created = 0, files = []\<rparr>"
  by (simp add: ex_server_def)

lemma ex_name_sendable: "list_all validHeaderChar (js ''b.txt'')"
  by (simp add: validHeaderChar_def js_def)

lemma enhanced_upload_keeps_bytes:
  "map_option fst
     (downloadStart (snd (upload ex_server ex_session (Some ex_contentType) ex_ff_body ex_env))
        (js ''ab12.txt''))
     = Some (200, Attachment (js ''b.txt'') [0xFF])"
proof -
  have "\<forall>p\<in>set []. \<not> qualifies p" by simp
  from upload_then_download(2) [OF ex_boundaryMatch ex_ff_well_formed this ex_file_headers
      ex_not_writeFails plain_ex_id ex_server_session ex_name_sendable]
  show ?thesis by (simp add: ex_ff_body_def ex_unique)
qed

lemma enhanced_upload_accepts_empty_file:
  "fst (upload ex_server ex_session (Some ex_contentType) ex_empty_body ex_env)
     = (200, Uploaded (js ''ab12'') (js ''ab12.txt'') (1001 + FILE_EXPIRY)) \<and>
   map_option size_f (map_of (fileDatabase
       (snd (upload ex_server ex_session (Some ex_contentType) ex_empty_body ex_env))) (js ''ab12''))
     = Some 0 \<and>
   disk (snd (upload ex_server ex_session (Some ex_contentType) ex_empty_body ex_env))
     (js ''/usr/src/app/uploads/ab12.txt'')
     = Some []"
proof -
  have i: "newFileId ex_env = js ''ab12''" "clockExpiry ex_env = 1001" by (simp_all add: ex_env_def)
  have "\<forall>p\<in>set []. \<not> qualifies p" by simp
  from parse_file_part [OF ex_empty_well_formed this ex_file_headers]
  have p: "parseMultipartFormData ex_empty_body ex_boundary
           = \<lparr>fileName = Some (js ''b.txt''), fileContent = Some []\<rparr>"
    by (simp add: ex_empty_body_def)
  note u = upload_stored [OF ex_boundaryMatch p ex_name_nonempty ex_not_writeFails,
      of ex_server ex_session]
  have k: "path_join UPLOAD_DIR (js ''ab12.txt'') = js ''/usr/src/app/uploads/ab12.txt''"
    using ex_path_join by (simp add: ex_path_def)
  from u(1) u(2) u(3) [OF ex_server_session] ex_unique show ?thesis
    by (simp add: i k)
qed

lemma enhanced_upload_without_boundary:
  "upload st sid None buffer env = ((400, Error ''Invalid content type or missing boundary''), st)"
  "upload st sid (Some (js ''multipart/form-data'')) buffer env
     = ((400, Error ''Invalid content type or missing boundary''), st)"
proof -
  show "upload st sid None buffer env = ((400, Error ''Invalid content type or missing boundary''), st)"
    by (rule upload_no_boundary) simp
  have "\<not> includes_buf (map toLowerAscii (js ''multipart/form-data'')) (js ''boundary='')"
    by (simp add: includes_buf_def indexOf_def js_def toLowerAscii_def)
  then show "upload st sid (Some (js ''multipart/form-data'')) buffer env
     = ((400, Error ''Invalid content type or missing boundary''), st)"
    by (intro upload_no_boundary) simp
qed

section \<open>Round trip through the text-splitting handler\<close>

text \<open>
  Claim C1: content uploaded as the first file-bearing part of a well-formed body comes
  back byte for byte. The handler of \<open>server.js\<close> breaks it. It decodes the body as
  text and writes the string back, so the uploaded byte \<open>0xFF\<close> is stored, and
  downloaded, as the three bytes \<open>EF BF BD\<close>.
\<close>

theorem simple_upload_alters_bytes:
  "fst (upload_simple ex_simple_server (Some ex_contentType) ex_ff_body ex_env)
     = (200, Uploaded (js ''ab12'') (js ''ab12.txt'') (1001 + FILE_EXPIRY)) \<and>
   simpleDisk (snd (upload_simple ex_simple_server (Some ex_contentType) ex_ff_body ex_env))
     (js ''/usr/src/app/uploads/ab12.txt'') = Some [0xEF, 0xBF, 0xBD] \<and>
   map_option fst
     (download_simple
        (snd (upload_simple ex_simple_server (Some ex_contentType) ex_ff_body ex_env))
        (js ''ab12.txt''))
     = Some (200, Attachment (js ''b.txt'') [0xEF, 0xBF, 0xBD])"
proof -
  have k: "js ''ab12'' @ js ''.txt'' = js ''ab12.txt''" by (simp add: js_def)
  have n: "js ''b.txt'' \<noteq> []" by (simp add: js_def)
  have e: "Buffer_from [0xFFFD] = [0xEF, 0xBF, 0xBD]"
    by (simp add: Buffer_from_def utf8_encode_cp_def)
  have i: "newFileId ex_env = js ''ab12''" "\<not> writeFails ex_env" "clockExpiry ex_env = 1001"
    by (simp_all add: ex_env_def)
  have p: "path_join UPLOAD_DIR (js ''ab12.txt'') = js ''/usr/src/app/uploads/ab12.txt''"
    using ex_path_join by (simp add: ex_path_def)
  have u: "upload_simple ex_simple_server (Some ex_contentType) ex_ff_body ex_env
     = ((200, Uploaded (js ''ab12'') (js ''ab12.txt'') (1001 + FILE_EXPIRY)),
        ex_simple_server\<lparr>simpleDisk := (simpleDisk ex_simple_server)
            (js ''/usr/src/app/uploads/ab12.txt'' \<mapsto> [0xEF, 0xBF, 0xBD]),
          simpleDatabase := AList.update (js ''ab12'')
            \<lparr>originalName = js ''b.txt'', filename = js ''ab12.txt'', size_f = 1,
             uploadTime = clockUpload ex_env, expiryTime = 1001 + FILE_EXPIRY,
             downloaded = False\<rparr> (simpleDatabase ex_simple_server)\<rparr>)"
    using ex_ff_found ex_simple_boundary
    by (simp add: upload_simple_def Let_def n i ex_extname k e jslength_def p)
  have v: "list_all validHeaderChar (contentDisposition (js ''b.txt''))"
    using ex_name_sendable by (simp add: valid_contentDisposition)
  show ?thesis
    unfolding u
    by (simp add: download_simple_def ex_fileIdOf ex_simple_server_def p v Let_def)
qed

section \<open>An empty file through the text-splitting handler\<close>

text \<open>
  Claim C4: an empty payload is a valid file and the upload succeeds with a record of
  size 0. The handler of \<open>server.js\<close> breaks it. Its content is a string, the empty
  string is falsy, and \<open>!fileName || !fileContent\<close> answers 400 \<open>No file uploaded\<close>
  in any store.
\<close>

theorem simple_upload_rejects_empty_file:
  "upload_simple st (Some ex_contentType) ex_empty_body env = ((400, Error ''No file uploaded''), st)"
  using ex_empty_found ex_simple_boundary
  by (simp add: upload_simple_def)

section \<open>A missing boundary in the text-splitting handler\<close>

text \<open>
  Claim C5: a request whose content type has no boundary parameter is answered 400 with
  that cause. The handler of \<open>server.js\<close> breaks it. With no \<open>content-type\<close> header
  at all it answers 500; with a header that has no \<open>boundary=\<close> it splits the body at
  \<open>--undefined\<close> and, for \<open>ex_body\<close>, answers 200 and stores a file.
\<close>

theorem simple_upload_without_boundary:
  "upload_simple st None bodyBuffer env = ((500, Error ''File upload failed''), st) \<and>
   fst (upload_simple ex_simple_server (Some (js ''multipart/form-data'')) ex_body ex_env)
     = (200, Uploaded (js ''ab12'') (js ''ab12.txt'') (1001 + FILE_EXPIRY))"
proof -
  have k: "js ''ab12'' @ js ''.txt'' = js ''ab12.txt''" by (simp add: js_def)
  have n: "js ''b.txt'' \<noteq> []" "crlf \<noteq> []"
    by (simp_all add: js_def crlf_def)
  have i: "newFileId ex_env = js ''ab12''" "\<not> writeFails ex_env" "clockExpiry ex_env = 1001"
    by (simp_all add: ex_env_def)
  have "fst (upload_simple ex_simple_server (Some (js ''multipart/form-data'')) ex_body ex_env)
     = (200, Uploaded (js ''ab12'') (js ''ab12.txt'') (1001 + FILE_EXPIRY))"
    using ex_undefined_found ex_no_boundary
    by (simp add: upload_simple_def Let_def n i ex_extname k)
  then show ?thesis by (simp add: upload_simple_def)
qed

end
